theory Spec2Isabelle
  imports Complex_Main
begin

section \<open>Utilities (app.js)\<close>

text \<open>
  JavaScript numbers are modelled as mathematical reals (page numbers as integers):
  rounding, infinities and NaN of IEEE doubles are outside the model.

  \<^verbatim>\<open>function clamp(val, min, max) { return Math.min(Math.max(val, min), max); }\<close>
\<close>

definition clamp :: "'a::linorder \<Rightarrow> 'a \<Rightarrow> 'a \<Rightarrow> 'a" where
  "clamp val mn mx = min (max val mn) mx"

section \<open>GestureEngine (gestures.js)\<close>

text \<open>
  Methods and fields keep their names without the leading underscore (\<^verbatim>\<open>_onDown\<close> is
  \<open>onDown\<close>, \<^verbatim>\<open>_lastTapTime\<close> is \<open>lastTapTime\<close>), here and in the classes below. Each
  method takes the object's state and returns the new state.
\<close>

subsection \<open>Data\<close>

text \<open>One active contact: \<^verbatim>\<open>{x, y, startX, startY}\<close>.\<close>

record pointer =
  pt_x :: real
  pt_y :: real
  pt_startX :: real
  pt_startY :: real

text \<open>The fields of a pointer event that the engine reads.\<close>

record pointer_event =
  pointerId :: nat
  clientX :: real
  clientY :: real
  timeStamp :: real

text \<open>
  An invocation of one of the callbacks of \<^verbatim>\<open>this.cb\<close>. Every handler returns the list
  of invocations it makes, in order. The code skips a callback that is not installed
  (\<^verbatim>\<open>this.cb.onPan && this.cb.onPan(...)\<close>); the reader installs all of them.
\<close>

datatype callback =
    OnPan real real bool
  | OnPanEnd
  | OnPinch real real real real real
  | OnPinchEnd
  | OnTap real real
  | OnDoubleTap real real
  | OnLongPress real real

text \<open>
  \<^verbatim>\<open>_longPressTimer\<close> holds a timeout handle. The handle stays in the field after the
  timeout has fired (only \<^verbatim>\<open>_clearLongPress\<close> resets it to null), so a handle is either
  armed, with the coordinates its closure captured, or already fired.
\<close>

datatype timer = Armed real real | Fired

text \<open>
  \<^verbatim>\<open>_momentumRafId\<close> holds an animation-frame handle. \<open>Pending vx vy\<close> is a requested
  frame whose closure holds the velocity \<open>(vx, vy)\<close>; \<open>Stale\<close> is the handle of a frame
  that ran and requested no further one.
\<close>

datatype raf = Pending real real | Stale

text \<open>
  \<^verbatim>\<open>_pointers\<close> is a JavaScript Map, which iterates in insertion order: an association
  list, new keys appended at the end.
\<close>

record gesture_state =
  pointers :: "(nat \<times> pointer) list"
  lastPanX :: real
  lastPanY :: real
  panVelX :: real
  panVelY :: real
  panTimestamp :: real
  momentumRafId :: "raf option"
  initPinchDist :: real
  initPinchMidX :: real
  initPinchMidY :: real
  initPinchScale :: real
  lastTapTime :: real
  lastTapX :: real
  lastTapY :: real
  longPressTimer :: "timer option"
  longPressFired :: bool

definition TAP_GAP :: real where "TAP_GAP = 300"
definition TAP_DIST :: real where "TAP_DIST = 40"
definition FRICTION :: real where "FRICTION = 9 / 10"
definition MIN_VEL :: real where "MIN_VEL = 3 / 10"

text \<open>
  \<^verbatim>\<open>App.init\<close> shows the library in a \<^verbatim>\<open>setTimeout\<close> of 1600 ms, and a gesture engine
  is built only when a comic is opened from the library (\<^verbatim>\<open>Reader.open\<close>,
  \<^verbatim>\<open>_initGestures\<close>). The time stamp of a pointer event counts from the start of the
  page at the latest, so every event that reaches an engine has a time stamp of at
  least \<open>SPLASH_MS\<close>.
\<close>

definition SPLASH_MS :: real where "SPLASH_MS = 1600"

text \<open>The state the constructor builds.\<close>

definition init_gesture_state :: gesture_state where
  "init_gesture_state =
     \<lparr> pointers = [], lastPanX = 0, lastPanY = 0, panVelX = 0, panVelY = 0,
       panTimestamp = 0, momentumRafId = None,
       initPinchDist = 0, initPinchMidX = 0, initPinchMidY = 0, initPinchScale = 1,
       lastTapTime = 0, lastTapX = 0, lastTapY = 0,
       longPressTimer = None, longPressFired = False \<rparr>"

subsection \<open>JavaScript Map and Set\<close>

text \<open>
  A Map as an association list in insertion order (\<^verbatim>\<open>set\<close> on a present key keeps its
  place), a Set as a list in insertion order.
\<close>

fun map_has :: "('k \<times> 'v) list \<Rightarrow> 'k \<Rightarrow> bool" where
  "map_has [] k = False"
| "map_has ((k', v) # ps) k = (if k' = k then True else map_has ps k)"

fun map_get :: "('k \<times> 'v) list \<Rightarrow> 'k \<Rightarrow> 'v option" where
  "map_get [] k = None"
| "map_get ((k', v) # ps) k = (if k' = k then Some v else map_get ps k)"

fun map_set :: "('k \<times> 'v) list \<Rightarrow> 'k \<Rightarrow> 'v \<Rightarrow> ('k \<times> 'v) list" where
  "map_set [] k v = [(k, v)]"
| "map_set ((k', v') # ps) k v = (if k' = k then (k, v) # ps else (k', v') # map_set ps k v)"

fun map_delete :: "('k \<times> 'v) list \<Rightarrow> 'k \<Rightarrow> ('k \<times> 'v) list" where
  "map_delete [] k = []"
| "map_delete ((k', v) # ps) k = (if k' = k then ps else (k', v) # map_delete ps k)"

definition set_add :: "'a list \<Rightarrow> 'a \<Rightarrow> 'a list" where
  "set_add xs x = (if x \<in> set xs then xs else xs @ [x])"

definition set_delete :: "'a list \<Rightarrow> 'a \<Rightarrow> 'a list" where
  "set_delete xs x = removeAll x xs"

subsection \<open>Helpers\<close>

definition dist_pt :: "pointer \<Rightarrow> pointer \<Rightarrow> real" where
  "dist_pt a b =
     (let dx = pt_x a - pt_x b; dy = pt_y a - pt_y b in sqrt (dx * dx + dy * dy))"

definition mid_pt :: "pointer \<Rightarrow> pointer \<Rightarrow> real \<times> real" where
  "mid_pt a b = ((pt_x a + pt_x b) / 2, (pt_y a + pt_y b) / 2)"

definition cancelMomentum :: "gesture_state \<Rightarrow> gesture_state" where
  "cancelMomentum s =
     (case momentumRafId s of None \<Rightarrow> s | Some h \<Rightarrow> s\<lparr>momentumRafId := None\<rparr>)"

definition clearLongPress :: "gesture_state \<Rightarrow> gesture_state" where
  "clearLongPress s =
     (case longPressTimer s of None \<Rightarrow> s | Some h \<Rightarrow> s\<lparr>longPressTimer := None\<rparr>)"

subsection \<open>Momentum\<close>

text \<open>
  One run of the closure \<^verbatim>\<open>step\<close> of \<^verbatim>\<open>_startMomentum\<close>, from the closure's velocity:
  \<open>None\<close> when it returns without a callback or a further frame, otherwise the new
  velocity, which it passes to \<^verbatim>\<open>onPan\<close> and keeps for the next frame.
\<close>

definition step :: "real \<Rightarrow> real \<Rightarrow> (real \<times> real) option" where
  "step vx vy =
     (let vx' = vx * FRICTION; vy' = vy * FRICTION
      in if \<bar>vx'\<bar> < MIN_VEL \<and> \<bar>vy'\<bar> < MIN_VEL then None else Some (vx', vy'))"

definition startMomentum :: "gesture_state \<Rightarrow> gesture_state" where
  "startMomentum s = s\<lparr>momentumRafId := Some (Pending (panVelX s) (panVelY s))\<rparr>"

text \<open>The browser runs a requested animation frame.\<close>

definition onFrame :: "gesture_state \<Rightarrow> gesture_state \<times> callback list" where
  "onFrame s =
     (case momentumRafId s of
        Some (Pending vx vy) \<Rightarrow>
          (case step vx vy of
             None \<Rightarrow> (s\<lparr>momentumRafId := Some Stale\<rparr>, [])
           | Some (vx', vy') \<Rightarrow>
               (s\<lparr>momentumRafId := Some (Pending vx' vy')\<rparr>, [OnPan vx' vy' False]))
      | _ \<Rightarrow> (s, []))"

text \<open>The long-press timeout fires.\<close>

definition onLongPressTimeout :: "gesture_state \<Rightarrow> gesture_state \<times> callback list" where
  "onLongPressTimeout s =
     (case longPressTimer s of
        Some (Armed x y) \<Rightarrow>
          (s\<lparr>longPressFired := True, longPressTimer := Some Fired\<rparr>, [OnLongPress x y])
      | _ \<Rightarrow> (s, []))"

subsection \<open>The pointer handlers\<close>

text \<open>
  \<^verbatim>\<open>_onDown\<close>. The argument \<open>getCurrentScale\<close> is what the caller's pull-style callback
  returns, \<open>None\<close> when no such callback is installed.
\<close>

definition onDown ::
  "real option \<Rightarrow> gesture_state \<Rightarrow> pointer_event \<Rightarrow> gesture_state \<times> callback list" where
  "onDown getCurrentScale s e =
     (let s1 = clearLongPress (cancelMomentum s);
          pt = \<lparr> pt_x = clientX e, pt_y = clientY e,
                 pt_startX = clientX e, pt_startY = clientY e \<rparr>;
          s2 = s1\<lparr>pointers := map_set (pointers s1) (pointerId e) pt\<rparr>
      in case pointers s2 of
           [p] \<Rightarrow>
             (s2\<lparr> lastPanX := clientX e, lastPanY := clientY e,
                   panVelX := 0, panVelY := 0, panTimestamp := timeStamp e,
                   longPressFired := False,
                   longPressTimer := Some (Armed (clientX e) (clientY e)) \<rparr>, [])
         | [p0, p1] \<Rightarrow>
             (let s3 = clearLongPress s2;
                  (mx, my) = mid_pt (snd p0) (snd p1)
              in (s3\<lparr> initPinchDist := dist_pt (snd p0) (snd p1),
                       initPinchMidX := mx, initPinchMidY := my,
                       initPinchScale := (case getCurrentScale of Some c \<Rightarrow> c | None \<Rightarrow> 1) \<rparr>,
                  []))
         | _ \<Rightarrow> (s2, []))"

text \<open>
  \<^verbatim>\<open>_onMove\<close>. \<^verbatim>\<open>e.timeStamp - this._panTimestamp || 16\<close> replaces a zero difference
  by 16; \<^verbatim>\<open>this._initPinchDist || 1\<close> replaces a zero distance by 1.
\<close>

definition onMove :: "gesture_state \<Rightarrow> pointer_event \<Rightarrow> gesture_state \<times> callback list" where
  "onMove s e =
     (case map_get (pointers s) (pointerId e) of
        None \<Rightarrow> (s, [])
      | Some pt0 \<Rightarrow>
          (let pt = pt0\<lparr>pt_x := clientX e, pt_y := clientY e\<rparr>;
               s1 = s\<lparr>pointers := map_set (pointers s) (pointerId e) pt\<rparr>
           in case pointers s1 of
                [p] \<Rightarrow>
                  (let dx = clientX e - lastPanX s1;
                       dy = clientY e - lastPanY s1;
                       dt = (if timeStamp e - panTimestamp s1 = 0 then 16
                             else timeStamp e - panTimestamp s1);
                       s2 = (if longPressTimer s1 \<noteq> None \<and>
                                (\<bar>clientX e - pt_startX pt\<bar> > 8 \<or> \<bar>clientY e - pt_startY pt\<bar> > 8)
                             then clearLongPress s1 else s1);
                       alpha = 6 / 10
                   in (s2\<lparr> panVelX := alpha * (dx / dt * 16) + (1 - alpha) * panVelX s2,
                            panVelY := alpha * (dy / dt * 16) + (1 - alpha) * panVelY s2,
                            lastPanX := clientX e, lastPanY := clientY e,
                            panTimestamp := timeStamp e \<rparr>,
                       [OnPan dx dy True]))
              | [p0, p1] \<Rightarrow>
                  (let newDist = dist_pt (snd p0) (snd p1);
                       (newMidX, newMidY) = mid_pt (snd p0) (snd p1);
                       scaleRatio = newDist / (if initPinchDist s1 = 0 then 1 else initPinchDist s1);
                       newScale = initPinchScale s1 * scaleRatio;
                       panDx = newMidX - initPinchMidX s1;
                       panDy = newMidY - initPinchMidY s1
                   in (s1, [OnPinch newScale (initPinchMidX s1) (initPinchMidY s1) panDx panDy]))
              | _ \<Rightarrow> (s1, [])))"

text \<open>\<^verbatim>\<open>_onUp\<close>.\<close>

definition onUp :: "gesture_state \<Rightarrow> pointer_event \<Rightarrow> gesture_state \<times> callback list" where
  "onUp s e =
     (case map_get (pointers s) (pointerId e) of
        None \<Rightarrow> (s, [])
      | Some pt \<Rightarrow>
          (let s0 = clearLongPress s;
               s1 = s0\<lparr>pointers := map_delete (pointers s0) (pointerId e)\<rparr>
           in case pointers s1 of
                [] \<Rightarrow>
                  (if \<not> longPressFired s1 then
                     (let dx = \<bar>clientX e - pt_startX pt\<bar>;
                          dy = \<bar>clientY e - pt_startY pt\<bar>;
                          moved = (dx > 10 \<or> dy > 10)
                      in if \<not> moved then
                           (let now = timeStamp e;
                                ddx = \<bar>clientX e - lastTapX s1\<bar>;
                                ddy = \<bar>clientY e - lastTapY s1\<bar>
                            in if now - lastTapTime s1 < TAP_GAP \<and> ddx < TAP_DIST \<and> ddy < TAP_DIST
                               then (s1\<lparr>lastTapTime := 0\<rparr>,
                                     [OnDoubleTap (clientX e) (clientY e), OnPanEnd])
                               else (s1\<lparr> lastTapTime := now, lastTapX := clientX e,
                                          lastTapY := clientY e \<rparr>,
                                     [OnTap (clientX e) (clientY e), OnPanEnd]))
                         else
                           (let speed = sqrt ((panVelX s1)\<^sup>2 + (panVelY s1)\<^sup>2)
                            in ((if speed > 15 / 10 then startMomentum s1 else s1), [OnPanEnd])))
                   else (s1, [OnPanEnd]))
              | [remaining] \<Rightarrow>
                  (s1\<lparr> lastPanX := pt_x (snd remaining), lastPanY := pt_y (snd remaining),
                        panVelX := 0, panVelY := 0 \<rparr>,
                   [OnPinchEnd])
              | _ \<Rightarrow> (s1, [])))"

text \<open>\<^verbatim>\<open>_onCancel\<close>: no test of the pointer id.\<close>

definition onCancel :: "gesture_state \<Rightarrow> pointer_event \<Rightarrow> gesture_state \<times> callback list" where
  "onCancel s e =
     (let s1 = s\<lparr>pointers := map_delete (pointers s) (pointerId e)\<rparr>;
          s2 = clearLongPress s1;
          s3 = cancelMomentum s2
      in (s3, [OnPanEnd]))"

text \<open>
  The whole momentum sequence that \<^verbatim>\<open>_startMomentum\<close> begins when nothing cancels it:
  the velocities passed to \<^verbatim>\<open>onPan\<close>, frame after frame. Each recursive call is the
  next requested animation frame.
\<close>

function momentum :: "real \<Rightarrow> real \<Rightarrow> (real \<times> real) list" where
  "momentum vx vy =
     (case step vx vy of
        None \<Rightarrow> []
      | Some (vx', vy') \<Rightarrow> (vx', vy') # momentum vx' vy')"
  by pat_completeness auto

text \<open>
  Termination: while the sequence goes on, the larger velocity component is at least
  \<open>MIN_VEL\<close> after the multiplication, so the number of factors \<open>10 / 9\<close> that fit
  between \<open>MIN_VEL\<close> and it drops by one with every frame.
\<close>

definition ticks_bound :: "real \<Rightarrow> real \<Rightarrow> nat" where
  "ticks_bound vx vy = nat \<lceil>log (10 / 9) (max (abs vx) (abs vy) * (10 / 3))\<rceil>"

lemma log_friction_step:
  assumes "1 \<le> (a::real)"
  shows "log (10 / 9) (a * (10 / 9)) = log (10 / 9) a + 1"
proof -
  have "0 < a" using assms by linarith
  hence "log (10 / 9) (a * (10 / 9)) = log (10 / 9) a + log (10 / 9) (10 / 9)"
    by (subst log_mult) simp_all
  thus ?thesis by simp
qed

lemma step_Some_bound:
  assumes "step vx vy = Some (vx', vy')"
  shows "ticks_bound vx' vy' < ticks_bound vx vy"
proof -
  define a where "a = max (abs vx') (abs vy') * (10 / 3)"
  from assms have v: "vx' = vx * (9 / 10)" "vy' = vy * (9 / 10)"
    and big: "\<not> (abs vx' < 3 / 10 \<and> abs vy' < 3 / 10)"
    by (auto simp: step_def FRICTION_def MIN_VEL_def Let_def split: if_splits)
  have m': "max (abs vx') (abs vy') = max (abs vx) (abs vy) * (9 / 10)"
    using v by (simp add: abs_mult max_mult_distrib_right)
  have "3 / 10 \<le> max (abs vx') (abs vy')" using big by linarith
  hence one: "1 \<le> a" by (simp add: a_def)
  have e1: "max (abs vx) (abs vy) * (10 / 3) = a * (10 / 9)"
    using m' by (simp add: a_def)
  have eq: "log (10 / 9) (max (abs vx) (abs vy) * (10 / 3)) = log (10 / 9) a + 1"
    by (simp only: e1 log_friction_step [OF one])
  have "0 \<le> log (10 / 9) a" using one by simp
  hence "0 \<le> \<lceil>log (10 / 9) a\<rceil>" by linarith
  moreover have "\<lceil>log (10 / 9) a + 1\<rceil> = \<lceil>log (10 / 9) a\<rceil> + 1" by simp
  ultimately show ?thesis unfolding ticks_bound_def eq a_def [symmetric] by simp
qed

termination momentum
  by (relation "measure (\<lambda>(vx, vy). ticks_bound vx vy)") (auto dest: step_Some_bound)

text \<open>Running the next \<open>n\<close> animation frames.\<close>

fun run_frames :: "nat \<Rightarrow> gesture_state \<Rightarrow> gesture_state \<times> callback list" where
  "run_frames 0 s = (s, [])"
| "run_frames (Suc n) s =
     (let (s1, cbs1) = onFrame s; (s2, cbs2) = run_frames n s1 in (s2, cbs1 @ cbs2))"

text \<open>
  What reaches the engine: the four pointer events it listens to (a pointer-down with
  what \<^verbatim>\<open>getCurrentScale\<close> would return), a due animation frame and the long-press
  timeout. \<open>gesture_run\<close> feeds a sequence of them and collects the callbacks.
\<close>

datatype gesture_event =
    Down "real option" pointer_event
  | Move pointer_event
  | Up pointer_event
  | PointerCancel pointer_event
  | Frame
  | LongPressTimeout

fun gesture_step :: "gesture_state \<Rightarrow> gesture_event \<Rightarrow> gesture_state \<times> callback list" where
  "gesture_step s (Down g e) = onDown g s e"
| "gesture_step s (Move e) = onMove s e"
| "gesture_step s (Up e) = onUp s e"
| "gesture_step s (PointerCancel e) = onCancel s e"
| "gesture_step s Frame = onFrame s"
| "gesture_step s LongPressTimeout = onLongPressTimeout s"

fun gesture_run ::
  "gesture_state \<Rightarrow> gesture_event list \<Rightarrow> gesture_state \<times> callback list" where
  "gesture_run s [] = (s, [])"
| "gesture_run s (ev # evs) =
     (let (s1, cbs1) = gesture_step s ev; (s2, cbs2) = gesture_run s1 evs in (s2, cbs1 @ cbs2))"

text \<open>
  The measure the specification names for a release, ``total displacement from
  start'': the Euclidean distance between the start point and the point of release.
\<close>

definition spec_total_displacement :: "pointer \<Rightarrow> pointer_event \<Rightarrow> real" where
  "spec_total_displacement pt e =
     sqrt ((clientX e - pt_startX pt)\<^sup>2 + (clientY e - pt_startY pt)\<^sup>2)"

section \<open>PdfRenderer (app.js)\<close>

text \<open>
  A PDF.js render task, as far as the renderer sees it: the page it draws, whether it is
  still running, and how often \<^verbatim>\<open>cancel()\<close> was called on it. \<^verbatim>\<open>cancel()\<close> stops a
  running task and does nothing to a settled one.
\<close>

datatype task_status = Running | Completed | Failed | Cancelled

record render_task =
  task_page :: int
  task_status :: task_status
  cancel_calls :: nat

text \<open>An entry \<^verbatim>\<open>{canvas, renderTask}\<close> of \<^verbatim>\<open>_rendered\<close>; the task by its index.\<close>

record render_record =
  rec_canvas :: nat
  rec_renderTask :: nat

text \<open>
  \<^verbatim>\<open>renderPage\<close> is an async function with two suspension points:
  \<^verbatim>\<open>await this.pdfDoc.getPage(pageNum)\<close> and \<^verbatim>\<open>await renderTask.promise\<close>. A call
  in flight is kept with the point where it waits.
\<close>

datatype call_phase = AwaitGetPage | AwaitRender nat | Returned | Threw

record render_call =
  call_page :: int
  call_canvas :: nat
  call_phase :: call_phase

record pdf_renderer =
  r_rendered :: "(int \<times> render_record) list"
  tasks :: "render_task list"
  calls :: "render_call list"

definition init_renderer :: pdf_renderer where
  "init_renderer = \<lparr> r_rendered = [], tasks = [], calls = [] \<rparr>"

definition task_cancel :: "render_task list \<Rightarrow> nat \<Rightarrow> render_task list" where
  "task_cancel ts t =
     (if t < length ts
      then ts[t := (ts ! t)\<lparr> task_status := (if task_status (ts ! t) = Running then Cancelled
                                                else task_status (ts ! t)),
                              cancel_calls := Suc (cancel_calls (ts ! t)) \<rparr>]
      else ts)"

definition cancelPage :: "pdf_renderer \<Rightarrow> int \<Rightarrow> pdf_renderer" where
  "cancelPage r pageNum =
     (let r1 = (case map_get (r_rendered r) pageNum of
                  Some rc \<Rightarrow> r\<lparr>tasks := task_cancel (tasks r) (rec_renderTask rc)\<rparr>
                | None \<Rightarrow> r)
      in r1\<lparr>r_rendered := map_delete (r_rendered r1) pageNum\<rparr>)"

text \<open>
  \<^verbatim>\<open>renderPage\<close> up to its first \<^verbatim>\<open>await\<close>: cancel what is recorded for the page, ask
  for the page, suspend. The new call's index is the former length of \<open>calls\<close>.
\<close>

definition renderPage_begin :: "pdf_renderer \<Rightarrow> int \<Rightarrow> nat \<Rightarrow> pdf_renderer" where
  "renderPage_begin r pageNum canvas =
     (let r1 = cancelPage r pageNum
      in r1\<lparr>calls := calls r1 @
               [\<lparr> call_page = pageNum, call_canvas = canvas, call_phase = AwaitGetPage \<rparr>]\<rparr>)"

text \<open>
  \<^verbatim>\<open>getPage\<close> resolved for call \<open>c\<close>: the call goes on to \<^verbatim>\<open>page.render\<close>, records the
  new task under its page and suspends on the task's promise.
\<close>

definition renderPage_resume :: "pdf_renderer \<Rightarrow> nat \<Rightarrow> pdf_renderer" where
  "renderPage_resume r c =
     (if c < length (calls r) \<and> call_phase (calls r ! c) = AwaitGetPage
      then (let cl = calls r ! c; t = length (tasks r)
            in r\<lparr> tasks := tasks r @
                      [\<lparr> task_page = call_page cl, task_status = Running, cancel_calls = 0 \<rparr>],
                    r_rendered := map_set (r_rendered r) (call_page cl)
                      \<lparr> rec_canvas = call_canvas cl, rec_renderTask = t \<rparr>,
                    calls := (calls r)[c := cl\<lparr>call_phase := AwaitRender t\<rparr>] \<rparr>)
      else r)"

text \<open>\<^verbatim>\<open>getPage\<close> rejected for call \<open>c\<close>: the exception leaves \<^verbatim>\<open>renderPage\<close>.\<close>

definition renderPage_reject :: "pdf_renderer \<Rightarrow> nat \<Rightarrow> pdf_renderer" where
  "renderPage_reject r c =
     (if c < length (calls r) \<and> call_phase (calls r ! c) = AwaitGetPage
      then r\<lparr>calls := (calls r)[c := (calls r ! c)\<lparr>call_phase := Threw\<rparr>]\<rparr>
      else r)"

text \<open>
  How the promise of a render task settles. In \<^verbatim>\<open>renderPage\<close> only \<open>Fulfilled\<close> reaches
  \<^verbatim>\<open>onDone\<close>; a \<^verbatim>\<open>RenderingCancelledException\<close> returns, any other error is logged
  with \<^verbatim>\<open>console.warn\<close>, and in both cases the call returns normally.
\<close>

datatype settle = Fulfilled | RejectedCancelled | RejectedError

definition settle_status :: "settle \<Rightarrow> task_status \<Rightarrow> task_status" where
  "settle_status how st =
     (if st = Running
      then (case how of Fulfilled \<Rightarrow> Completed | RejectedCancelled \<Rightarrow> Cancelled
            | RejectedError \<Rightarrow> Failed)
      else st)"

text \<open>The calls that wait for task \<open>t\<close>.\<close>

definition awaiting :: "pdf_renderer \<Rightarrow> nat \<Rightarrow> nat list" where
  "awaiting r t = filter (\<lambda>c. call_phase (calls r ! c) = AwaitRender t) [0 ..< length (calls r)]"

text \<open>
  The promise of task \<open>t\<close> settles: the renderer's side. The result names the calls that
  run \<^verbatim>\<open>onDone\<close> (none unless the promise is fulfilled).
\<close>

definition renderPage_settle :: "pdf_renderer \<Rightarrow> nat \<Rightarrow> settle \<Rightarrow> pdf_renderer \<times> nat list" where
  "renderPage_settle r t how =
     (if t < length (tasks r)
      then (let cs = awaiting r t;
                r1 = r\<lparr> tasks := (tasks r)[t := (tasks r ! t)
                                   \<lparr>task_status := settle_status how (task_status (tasks r ! t))\<rparr>],
                         calls := map (\<lambda>cl. if call_phase cl = AwaitRender t
                                             then cl\<lparr>call_phase := Returned\<rparr> else cl) (calls r) \<rparr>
            in (r1, if how = Fulfilled then cs else []))
      else (r, []))"

text \<open>The render tasks of a page that are outstanding: issued and still running.\<close>

definition outstanding :: "pdf_renderer \<Rightarrow> int \<Rightarrow> nat list" where
  "outstanding r pageNum =
     filter (\<lambda>t. task_page (tasks r ! t) = pageNum \<and> task_status (tasks r ! t) = Running)
       [0 ..< length (tasks r)]"

section \<open>VirtualScroll (app.js)\<close>

datatype mode = Vertical | Horizontal

text \<open>
  What a page slot holds: the placeholder, a \<^verbatim>\<open>canvas.page-canvas\<close>, and whether a
  \<^verbatim>\<open>setTimeout(() => canvas.remove(), 200)\<close> of an eviction is still to fire.
\<close>

record slot =
  has_placeholder :: bool
  has_canvas :: bool
  removal_pending :: bool

record virtual_scroll =
  vs_mode :: mode
  slots :: "slot list"
  vs_rendered :: "int list"
  vs_pending :: "int list"
  maxBuffered :: nat
  vs_currentPage :: int
  viewW :: real
  viewH :: real

text \<open>The manager with the renderer it was given (a shared object).\<close>

record page_system =
  renderer :: pdf_renderer
  vscroll :: virtual_scroll

text \<open>The constructor and \<^verbatim>\<open>_init\<close>: one slot with a placeholder per page.\<close>

definition init_virtual_scroll :: "nat \<Rightarrow> mode \<Rightarrow> real \<Rightarrow> real \<Rightarrow> virtual_scroll" where
  "init_virtual_scroll totalPages m w h =
     \<lparr> vs_mode = m,
       slots = replicate totalPages
                 \<lparr> has_placeholder = True, has_canvas = False, removal_pending = False \<rparr>,
       vs_rendered = [], vs_pending = [], maxBuffered = 5, vs_currentPage = 1,
       viewW = w, viewH = h \<rparr>"

definition init_page_system :: "nat \<Rightarrow> mode \<Rightarrow> real \<Rightarrow> real \<Rightarrow> page_system" where
  "init_page_system totalPages m w h =
     \<lparr> renderer = init_renderer, vscroll = init_virtual_scroll totalPages m w h \<rparr>"

text \<open>\<^verbatim>\<open>this._slots[pageNum - 1]\<close>, which is undefined outside the array.\<close>

definition slot_of :: "virtual_scroll \<Rightarrow> int \<Rightarrow> slot option" where
  "slot_of v pageNum =
     (if 1 \<le> pageNum \<and> pageNum \<le> int (length (slots v))
      then Some (slots v ! nat (pageNum - 1)) else None)"

definition slot_update :: "(slot \<Rightarrow> slot) \<Rightarrow> virtual_scroll \<Rightarrow> int \<Rightarrow> virtual_scroll" where
  "slot_update f v pageNum =
     (if 1 \<le> pageNum \<and> pageNum \<le> int (length (slots v))
      then v\<lparr>slots := (slots v)[nat (pageNum - 1) := f (slots v ! nat (pageNum - 1))]\<rparr>
      else v)"

text \<open>
  \<^verbatim>\<open>_evictPage(pageNum, slot)\<close>; every caller passes the slot of \<open>pageNum\<close>.
\<close>

definition evictPage :: "page_system \<Rightarrow> int \<Rightarrow> page_system" where
  "evictPage sys pageNum =
     (let v = vscroll sys
      in if pageNum \<notin> set (vs_rendered v) then sys
         else if abs (pageNum - vs_currentPage v) \<le> 2 then sys
         else
           (let r1 = cancelPage (renderer sys) pageNum;
                v1 = slot_update
                       (\<lambda>sl. if has_canvas sl
                              then sl\<lparr>has_placeholder := True, removal_pending := True\<rparr>
                              else sl) v pageNum
            in \<lparr> renderer = r1,
                 vscroll = v1\<lparr>vs_rendered := set_delete (vs_rendered v1) pageNum\<rparr> \<rparr>))"

text \<open>The loop of \<^verbatim>\<open>_evictFarPages\<close> over the Set, as a fold over \<open>(farthest, maxDist)\<close>.\<close>

definition farthest_from :: "int list \<Rightarrow> int \<Rightarrow> int \<times> int" where
  "farthest_from ps nearPage =
     fold (\<lambda>p (farthest, maxDist).
             (let d = abs (p - nearPage) in if d > maxDist then (p, d) else (farthest, maxDist)))
          ps (- 1, 0)"

definition evictFarPages :: "page_system \<Rightarrow> int \<Rightarrow> page_system" where
  "evictFarPages sys nearPage =
     (let v = vscroll sys
      in if length (vs_rendered v) < maxBuffered v then sys
         else
           (let (farthest, maxDist) = farthest_from (vs_rendered v) nearPage
            in if farthest > 0 \<and> maxDist > 3
               then (case slot_of v farthest of
                       Some farSlot \<Rightarrow> evictPage sys farthest
                     | None \<Rightarrow> sys)
               else sys))"

text \<open>
  \<^verbatim>\<open>_renderSlot\<close> up to the first suspension of \<^verbatim>\<open>renderer.renderPage\<close>. The canvas is
  the slot's one if it has one, else a new one; it is told apart only by the page.
\<close>

definition renderSlot :: "page_system \<Rightarrow> int \<Rightarrow> page_system" where
  "renderSlot sys pageNum =
     (let sys1 = evictFarPages sys pageNum
      in sys1\<lparr>renderer := renderPage_begin (renderer sys1) pageNum (nat pageNum)\<rparr>)"

definition scheduleRender :: "page_system \<Rightarrow> int \<Rightarrow> page_system" where
  "scheduleRender sys pageNum =
     (let v = vscroll sys
      in if pageNum \<in> set (vs_rendered v) \<or> pageNum \<in> set (vs_pending v) then sys
         else renderSlot (sys\<lparr>vscroll := v\<lparr>vs_pending := set_add (vs_pending v) pageNum\<rparr>\<rparr>)
                pageNum)"

text \<open>An IntersectionObserver entry: the slot's page and what the handler reads of it.\<close>

record entry =
  entry_page :: int
  isIntersecting :: bool
  rect_top :: real
  rect_height :: real
  rect_left :: real
  rect_width :: real

text \<open>The body of the loop of \<^verbatim>\<open>_onIntersect\<close>, for one entry.\<close>

definition onIntersect1 :: "page_system \<Rightarrow> entry \<Rightarrow> page_system" where
  "onIntersect1 sys en =
     (let pageNum = entry_page en
      in if isIntersecting en then
           (let sys1 = scheduleRender sys pageNum;
                v = vscroll sys1;
                mid = (if vs_mode v = Vertical then rect_top en + rect_height en / 2
                       else rect_left en + rect_width en / 2);
                viewMid = (if vs_mode v = Vertical then viewH v / 2 else viewW v / 2)
            in if abs (mid - viewMid) <
                    (if vs_mode v = Vertical then viewH v * (6 / 10) else viewW v * (6 / 10))
               then (if vs_currentPage v \<noteq> pageNum
                     then sys1\<lparr>vscroll := v\<lparr>vs_currentPage := pageNum\<rparr>\<rparr> else sys1)
               else sys1)
         else evictPage sys pageNum)"

definition onIntersect :: "page_system \<Rightarrow> entry list \<Rightarrow> page_system" where
  "onIntersect sys entries = fold (\<lambda>en s. onIntersect1 s en) entries sys"

text \<open>
  The \<^verbatim>\<open>onDone\<close> callback that \<^verbatim>\<open>_renderSlot\<close> passes, for the page of the call: the
  placeholder goes, the canvas is in the slot, the page moves from pending to rendered.
\<close>

definition onDone :: "virtual_scroll \<Rightarrow> int \<Rightarrow> virtual_scroll" where
  "onDone v pageNum =
     (let v1 = slot_update (\<lambda>sl. sl\<lparr>has_placeholder := False, has_canvas := True\<rparr>) v pageNum
      in v1\<lparr> vs_rendered := set_add (vs_rendered v1) pageNum,
              vs_pending := set_delete (vs_pending v1) pageNum \<rparr>)"

text \<open>
  What the browser and PDF.js do to the manager and its renderer. An observer callback
  with several entries is the sequence of the events of its entries, in order.
\<close>

datatype vs_event =
    Intersect entry
  | GetPageResolved nat
  | GetPageRejected nat
  | TaskSettled nat settle
  | CanvasRemoveTimeout int

text \<open>
  One event. A rejected \<^verbatim>\<open>getPage\<close> is the only exception that reaches the
  \<^verbatim>\<open>catch\<close> of \<^verbatim>\<open>_renderSlot\<close>, which removes the page from \<^verbatim>\<open>_pending\<close>.
\<close>

definition vs_step :: "page_system \<Rightarrow> vs_event \<Rightarrow> page_system" where
  "vs_step sys ev =
     (case ev of
        Intersect en \<Rightarrow> onIntersect1 sys en
      | GetPageResolved c \<Rightarrow> sys\<lparr>renderer := renderPage_resume (renderer sys) c\<rparr>
      | GetPageRejected c \<Rightarrow>
          (let r = renderer sys
           in if c < length (calls r) \<and> call_phase (calls r ! c) = AwaitGetPage
              then \<lparr> renderer = renderPage_reject r c,
                     vscroll = (vscroll sys)\<lparr>vs_pending :=
                        set_delete (vs_pending (vscroll sys)) (call_page (calls r ! c))\<rparr> \<rparr>
              else sys)
      | TaskSettled t how \<Rightarrow>
          (let (r1, done) = renderPage_settle (renderer sys) t how
           in \<lparr> renderer = r1,
                vscroll = fold (\<lambda>c v. onDone v (call_page (calls (renderer sys) ! c))) done
                            (vscroll sys) \<rparr>)
      | CanvasRemoveTimeout p \<Rightarrow>
          sys\<lparr>vscroll := slot_update
                 (\<lambda>sl. if removal_pending sl
                        then sl\<lparr>has_canvas := False, removal_pending := False\<rparr> else sl)
                 (vscroll sys) p\<rparr>)"

definition vs_run :: "page_system \<Rightarrow> vs_event list \<Rightarrow> page_system" where
  "vs_run sys evs = fold (\<lambda>ev s. vs_step s ev) evs sys"

text \<open>
  Page \<open>p\<close> is within 2 of the current page at every state that a sequence of events
  passes through, the last one apart.
\<close>

fun stays_near :: "page_system \<Rightarrow> vs_event list \<Rightarrow> int \<Rightarrow> bool" where
  "stays_near sys [] p = True"
| "stays_near sys (ev # evs) p =
     (abs (p - vs_currentPage (vscroll sys)) \<le> 2 \<and> stays_near (vs_step sys ev) evs p)"

section \<open>Reader (app.js)\<close>

text \<open>
  The fields of the reader that its transform logic reads and writes, with the
  viewport's \<^verbatim>\<open>clientWidth\<close>, \<^verbatim>\<open>clientHeight\<close> and \<^verbatim>\<open>scrollTop\<close>.
\<close>

record reader =
  r_mode :: mode
  totalPages :: int
  currentPage :: int
  scale :: real
  minScale :: real
  maxScale :: real
  translateX :: real
  translateY :: real
  uiVisible :: bool
  clientWidth :: real
  clientHeight :: real
  scrollTop :: real

text \<open>The constructor's values, for a document of \<open>n\<close> pages opened in mode \<open>m\<close>.\<close>

definition init_reader :: "mode \<Rightarrow> int \<Rightarrow> real \<Rightarrow> real \<Rightarrow> reader" where
  "init_reader m n w h =
     \<lparr> r_mode = m, totalPages = n, currentPage = 1, scale = 1, minScale = 1, maxScale = 5,
       translateX = 0, translateY = 0, uiVisible = True,
       clientWidth = w, clientHeight = h, scrollTop = 0 \<rparr>"

definition clampPan :: "reader \<Rightarrow> reader" where
  "clampPan r =
     (if scale r \<le> 1 then r\<lparr>translateX := 0, translateY := 0\<rparr>
      else
        (let vw = clientWidth r; vh = clientHeight r;
             maxX = ((scale r - 1) * vw) / 2;
             maxY = ((scale r - 1) * vh) / 2
         in r\<lparr> translateX := clamp (translateX r) (- maxX) maxX,
                 translateY := clamp (translateY r) (- maxY) maxY \<rparr>))"

definition zoomTo :: "reader \<Rightarrow> real \<Rightarrow> real \<Rightarrow> real \<Rightarrow> reader" where
  "zoomTo r targetScale cx cy =
     (let vw = clientWidth r; vh = clientHeight r
      in if targetScale \<le> 1 then r\<lparr>scale := 1, translateX := 0, translateY := 0\<rparr>
         else
           (let dx = cx - vw / 2; dy = cy - vh / 2
            in clampPan (r\<lparr> scale := targetScale,
                             translateX := - dx * (targetScale - 1) / targetScale,
                             translateY := (if r_mode r = Vertical
                                            then - dy * (targetScale - 1) / targetScale
                                            else 0) \<rparr>)))"

definition jumpToHPage :: "reader \<Rightarrow> int \<Rightarrow> reader" where
  "jumpToHPage r page0 =
     (let page = clamp page0 1 (totalPages r);
          vw = clientWidth r
      in r\<lparr>translateX := - (of_int (page - 1)) * vw\<rparr>)"

definition snapHorizontalPage :: "reader \<Rightarrow> reader" where
  "snapHorizontalPage r =
     (let vw = clientWidth r;
          page = currentPage r;
          target = - (of_int (page - 1)) * vw;
          diff = translateX r - target;
          dest = (if diff < - vw * (2 / 10) \<and> page < totalPages r then page + 1
                  else if diff > vw * (2 / 10) \<and> page > 1 then page - 1
                  else page)
      in jumpToHPage r dest)"

text \<open>
  \<^verbatim>\<open>_jumpPage\<close>. In vertical mode the target goes to \<^verbatim>\<open>virtualScroll.scrollToPage\<close>,
  which scrolls the slot into view and writes no field of the reader.
\<close>

definition jumpPage :: "reader \<Rightarrow> int \<Rightarrow> reader" where
  "jumpPage r dir =
     (if r_mode r = Vertical then r
      else jumpToHPage r (clamp (currentPage r + dir) 1 (totalPages r)))"

text \<open>\<^verbatim>\<open>_initLayout\<close>: the transform is reset.\<close>

definition initLayout :: "reader \<Rightarrow> reader" where
  "initLayout r = r\<lparr>scale := 1, translateX := 0, translateY := 0\<rparr>"

text \<open>
  \<^verbatim>\<open>_toggleMode\<close> up to its \<^verbatim>\<open>setTimeout\<close>, and the timeout's body, which gets the page
  that was current at the toggle.
\<close>

definition toggleMode :: "reader \<Rightarrow> reader" where
  "toggleMode r =
     initLayout (r\<lparr>r_mode := (if r_mode r = Vertical then Horizontal else Vertical)\<rparr>)"

definition toggleRestore :: "reader \<Rightarrow> int \<Rightarrow> reader" where
  "toggleRestore r savedPage = (if r_mode r = Vertical then r else jumpToHPage r savedPage)"

text \<open>
  \<^verbatim>\<open>_doScrub\<close> from the page it has computed from the pointer's position on the track.
\<close>

definition doScrub :: "reader \<Rightarrow> int \<Rightarrow> reader" where
  "doScrub r page =
     (if page \<noteq> currentPage r
      then (if r_mode r = Vertical then r else jumpToHPage r page)
      else r)"

text \<open>The callbacks that \<^verbatim>\<open>_initGestures\<close> hands to the gesture engine.\<close>

fun gesture :: "reader \<Rightarrow> callback \<Rightarrow> reader" where
  "gesture r (OnTap x y) = r\<lparr>uiVisible := \<not> uiVisible r\<rparr>"
| "gesture r (OnDoubleTap x y) =
     (if scale r > 105 / 100 then zoomTo r 1 x y else zoomTo r (25 / 10) x y)"
| "gesture r (OnPan dx dy isDragging) =
     (if r_mode r = Vertical then
        (if scale r > 105 / 100
         then clampPan (r\<lparr>translateX := translateX r + dx, translateY := translateY r + dy\<rparr>)
         else r\<lparr>scrollTop := scrollTop r - dy\<rparr>)
      else r\<lparr>translateX := translateX r + dx\<rparr>)"
| "gesture r OnPanEnd =
     (if r_mode r = Horizontal \<and> scale r \<le> 105 / 100 then snapHorizontalPage r else r)"
| "gesture r (OnPinch newScale midX midY panDx panDy) =
     clampPan (r\<lparr> scale := clamp newScale (minScale r) (maxScale r),
                  translateX := panDx, translateY := panDy \<rparr>)"
| "gesture r OnPinchEnd = (if scale r < 105 / 100 then zoomTo r 1 0 0 else r)"
| "gesture r (OnLongPress x y) = r"

text \<open>Everything that changes the reader's view state.\<close>

datatype reader_event =
    Gesture callback
  | JumpPage int
  | Scrub int
  | ToggleMode
  | ToggleRestore int
  | PageChanged int

fun reader_step :: "reader \<Rightarrow> reader_event \<Rightarrow> reader" where
  "reader_step r (Gesture cb) = gesture r cb"
| "reader_step r (JumpPage dir) = jumpPage r dir"
| "reader_step r (Scrub page) = doScrub r page"
| "reader_step r ToggleMode = toggleMode r"
| "reader_step r (ToggleRestore savedPage) = toggleRestore r savedPage"
| "reader_step r (PageChanged page) = r\<lparr>currentPage := page\<rparr>"

definition reader_run :: "reader \<Rightarrow> reader_event list \<Rightarrow> reader" where
  "reader_run r evs = fold (\<lambda>ev s. reader_step s ev) evs r"

text \<open>
  The invariant of the view transform that the code keeps: the scale lies between
  \<^verbatim>\<open>_minScale\<close> = 1 and \<^verbatim>\<open>_maxScale\<close> = 5, and at a scale of at most 1 the vertical
  translate is zero, and so is the horizontal one in vertical mode. In horizontal mode
  \<^verbatim>\<open>_translateX\<close> is the paging offset.
\<close>

definition view_inv :: "reader \<Rightarrow> bool" where
  "view_inv r =
     (minScale r = 1 \<and> maxScale r = 5 \<and> minScale r \<le> scale r \<and> scale r \<le> maxScale r \<and>
      (scale r \<le> 1 \<longrightarrow> translateY r = 0 \<and> (r_mode r = Vertical \<longrightarrow> translateX r = 0)))"

section \<open>Concrete inputs\<close>

text \<open>
  A pointer event from its id, position and time stamp; the engine after a first finger
  went down at \<open>(100, 100)\<close>; after a tap at \<open>(100, 100)\<close> and a second press at
  \<open>(110, 105)\<close>; and with two fingers down 100 px apart at scale 1.
\<close>

definition pointer_at :: "nat \<Rightarrow> real \<Rightarrow> real \<Rightarrow> real \<Rightarrow> pointer_event" where
  "pointer_at i x y t = \<lparr> pointerId = i, clientX = x, clientY = y, timeStamp = t \<rparr>"

definition pressed :: gesture_state where
  "pressed = fst (onDown None init_gesture_state (pointer_at 1 100 100 2000))"



text \<open>
  An observer entry for a slot 600 px high in a viewport of 400 by 1000 px, from its
  page, whether it intersects, and its top; and the manager of an eight-page document
  after the slots of pages 1 to 5 came into view, page 3 near the centre, and their
  renders completed.
\<close>

definition entry_at :: "int \<Rightarrow> bool \<Rightarrow> real \<Rightarrow> entry" where
  "entry_at p vis y =
     \<lparr> entry_page = p, isIntersecting = vis, rect_top = y, rect_height = 600,
       rect_left = 0, rect_width = 400 \<rparr>"

definition five_rendered :: page_system where
  "five_rendered =
     vs_run (init_page_system 8 Vertical 400 1000)
       [Intersect (entry_at 1 True (- 1000)), Intersect (entry_at 2 True (- 400)),
        Intersect (entry_at 3 True 200), Intersect (entry_at 4 True 800),
        Intersect (entry_at 5 True 1400),
        GetPageResolved 0, GetPageResolved 1, GetPageResolved 2, GetPageResolved 3,
        GetPageResolved 4,
        TaskSettled 0 Fulfilled, TaskSettled 1 Fulfilled, TaskSettled 2 Fulfilled,
        TaskSettled 3 Fulfilled, TaskSettled 4 Fulfilled]"

section \<open>Momentum decays geometrically and stops\<close>

declare momentum.simps [simp del]

lemma momentum_None: "step vx vy = None \<Longrightarrow> momentum vx vy = []"
  by (subst momentum.simps) simp

lemma momentum_Some:
  "step vx vy = Some (vx', vy') \<Longrightarrow> momentum vx vy = (vx', vy') # momentum vx' vy'"
  by (subst momentum.simps) simp

lemma step_Some_iff:
  "step vx vy = Some (a, b) \<longleftrightarrow>
     a = vx * FRICTION \<and> b = vy * FRICTION \<and> \<not> (abs a < MIN_VEL \<and> abs b < MIN_VEL)"
  by (auto simp: step_def Let_def)

lemma step_None_iff:
  "step vx vy = None \<longleftrightarrow> abs (vx * FRICTION) < MIN_VEL \<and> abs (vy * FRICTION) < MIN_VEL"
  by (auto simp: step_def Let_def)

lemma momentum_length_bound: "length (momentum vx vy) \<le> ticks_bound vx vy"
proof (induction vx vy rule: momentum.induct)
  case (1 vx vy)
  show ?case
  proof (cases "step vx vy")
    case None
    then show ?thesis by (simp add: momentum_None)
  next
    case (Some p)
    obtain a b where p: "p = (a, b)" by (cases p)
    from Some p have st: "step vx vy = Some (a, b)" by simp
    from "1.IH" [OF st refl] have "length (momentum a b) \<le> ticks_bound a b" .
    with step_Some_bound [OF st] show ?thesis by (simp add: momentum_Some [OF st])
  qed
qed

lemma momentum_nth:
  "k < length (momentum vx vy) \<Longrightarrow>
     momentum vx vy ! k = (vx * FRICTION ^ Suc k, vy * FRICTION ^ Suc k)"
proof (induction vx vy arbitrary: k rule: momentum.induct)
  case (1 vx vy)
  show ?case
  proof (cases "step vx vy")
    case None
    with "1.prems" show ?thesis by (simp add: momentum_None)
  next
    case (Some p)
    obtain a b where p: "p = (a, b)" by (cases p)
    from Some p have st: "step vx vy = Some (a, b)" by simp
    hence ab: "a = vx * FRICTION" "b = vy * FRICTION" by (simp_all add: step_Some_iff)
    show ?thesis
    proof (cases k)
      case 0
      then show ?thesis using ab by (simp add: momentum_Some [OF st])
    next
      case (Suc j)
      with "1.prems" have "j < length (momentum a b)" by (simp add: momentum_Some [OF st])
      from "1.IH" [OF st refl this] show ?thesis
        using Suc ab by (simp add: momentum_Some [OF st] mult.assoc)
    qed
  qed
qed

lemma momentum_running:
  "k < length (momentum vx vy) \<Longrightarrow>
     \<not> (abs (vx * FRICTION ^ Suc k) < MIN_VEL \<and> abs (vy * FRICTION ^ Suc k) < MIN_VEL)"
proof (induction vx vy arbitrary: k rule: momentum.induct)
  case (1 vx vy)
  show ?case
  proof (cases "step vx vy")
    case None
    with "1.prems" show ?thesis by (simp add: momentum_None)
  next
    case (Some p)
    obtain a b where p: "p = (a, b)" by (cases p)
    from Some p have st: "step vx vy = Some (a, b)" by simp
    hence ab: "a = vx * FRICTION" "b = vy * FRICTION"
      and big: "\<not> (abs a < MIN_VEL \<and> abs b < MIN_VEL)" by (auto simp: step_Some_iff)
    show ?thesis
    proof (cases k)
      case 0
      then show ?thesis using ab big by auto
    next
      case (Suc j)
      with "1.prems" have "j < length (momentum a b)" by (simp add: momentum_Some [OF st])
      from "1.IH" [OF st refl this] show ?thesis
        using Suc ab by (simp add: mult.assoc)
    qed
  qed
qed

lemma momentum_stops:
  "abs (vx * FRICTION ^ Suc (length (momentum vx vy))) < MIN_VEL \<and>
   abs (vy * FRICTION ^ Suc (length (momentum vx vy))) < MIN_VEL"
proof (induction vx vy rule: momentum.induct)
  case (1 vx vy)
  show ?case
  proof (cases "step vx vy")
    case None
    then show ?thesis by (simp add: momentum_None step_None_iff)
  next
    case (Some p)
    obtain a b where p: "p = (a, b)" by (cases p)
    from Some p have st: "step vx vy = Some (a, b)" by simp
    hence ab: "a = vx * FRICTION" "b = vy * FRICTION" by (simp_all add: step_Some_iff)
    from "1.IH" [OF st refl] show ?thesis
      using ab by (simp add: momentum_Some [OF st] mult.assoc)
  qed
qed

lemma run_frames_momentum:
  "momentumRafId s = Some (Pending vx vy) \<Longrightarrow>
     run_frames (Suc (length (momentum vx vy))) s =
       (s\<lparr>momentumRafId := Some Stale\<rparr>, map (\<lambda>(a, b). OnPan a b False) (momentum vx vy))"
proof (induction vx vy arbitrary: s rule: momentum.induct)
  case (1 vx vy)
  show ?case
  proof (cases "step vx vy")
    case None
    then show ?thesis using "1.prems" by (simp add: momentum_None onFrame_def)
  next
    case (Some p)
    obtain a b where p: "p = (a, b)" by (cases p)
    from Some p have st: "step vx vy = Some (a, b)" by simp
    let ?s1 = "s\<lparr>momentumRafId := Some (Pending a b)\<rparr>"
    have f: "onFrame s = (?s1, [OnPan a b False])"
      using "1.prems" st by (simp add: onFrame_def)
    have "momentumRafId ?s1 = Some (Pending a b)" by simp
    from "1.IH" [OF st refl this] show ?thesis
      using f by (simp add: momentum_Some [OF st])
  qed
qed

lemma momentum_map:
  "map (\<lambda>(a, b). OnPan a b False) (momentum vx vy) =
   map (\<lambda>k. OnPan (vx * FRICTION ^ k) (vy * FRICTION ^ k) False)
     [1 ..< Suc (length (momentum vx vy))]"
  by (rule nth_equalityI) (simp_all add: momentum_nth nth_upt del: upt_Suc)

lemma run_frames_pending:
  "momentumRafId s = Some (Pending vx vy) \<Longrightarrow> m \<le> length (momentum vx vy) \<Longrightarrow>
     momentumRafId (fst (run_frames m s)) = Some (Pending (vx * FRICTION ^ m) (vy * FRICTION ^ m))"
proof (induction vx vy arbitrary: s m rule: momentum.induct)
  case (1 vx vy)
  show ?case
  proof (cases m)
    case 0
    then show ?thesis using "1.prems" by simp
  next
    case (Suc j)
    with "1.prems" have "momentum vx vy \<noteq> []" by auto
    then obtain a b where st: "step vx vy = Some (a, b)"
      by (cases "step vx vy") (auto simp: momentum_None)
    hence ab: "a = vx * FRICTION" "b = vy * FRICTION" by (simp_all add: step_Some_iff)
    let ?s1 = "s\<lparr>momentumRafId := Some (Pending a b)\<rparr>"
    have f: "onFrame s = (?s1, [OnPan a b False])"
      using "1.prems" st by (simp add: onFrame_def)
    have p: "momentumRafId ?s1 = Some (Pending a b)" by simp
    have j: "j \<le> length (momentum a b)"
      using "1.prems" Suc by (simp add: momentum_Some [OF st])
    from "1.IH" [OF st refl p j] show ?thesis
      using f Suc ab by (simp add: mult.assoc split_beta)
  qed
qed

text \<open>
  Claim C6. Once a momentum sequence has started, every animation frame multiplies
  both velocity components by the friction factor \<open>0.90\<close>; every frame but the last
  passes the new velocity to \<^verbatim>\<open>onPan(vx, vy, false)\<close> and requests the next frame. The
  sequence ends after a bounded number of frames, at the first frame where both
  \<open>|vx|\<close> and \<open>|vy|\<close> are below \<open>0.3\<close>: with \<open>n = length (momentum vx vy)\<close>, the frames
  \<open>1, ..., n\<close> emit \<open>(vx * 0.9^k, vy * 0.9^k)\<close>, a frame is still requested after each of
  them, frame \<open>n + 1\<close> finds both components below \<open>0.3\<close> and requests nothing, and
  \<open>n\<close> is at most \<open>ticks_bound vx vy\<close>. The stopping frame itself makes no callback.
\<close>

theorem momentum_decay_terminates:
  "momentumRafId s = Some (Pending vx vy) \<Longrightarrow>
     run_frames (Suc (length (momentum vx vy))) s =
       (s\<lparr>momentumRafId := Some Stale\<rparr>,
        map (\<lambda>k. OnPan (vx * FRICTION ^ k) (vy * FRICTION ^ k) False)
          [1 ..< Suc (length (momentum vx vy))]) \<and>
     (\<forall>m. m \<le> length (momentum vx vy) \<longrightarrow>
        momentumRafId (fst (run_frames m s)) =
          Some (Pending (vx * FRICTION ^ m) (vy * FRICTION ^ m))) \<and>
     (\<forall>k. 1 \<le> k \<and> k \<le> length (momentum vx vy) \<longrightarrow>
        \<not> (abs (vx * FRICTION ^ k) < MIN_VEL \<and> abs (vy * FRICTION ^ k) < MIN_VEL)) \<and>
     abs (vx * FRICTION ^ Suc (length (momentum vx vy))) < MIN_VEL \<and>
     abs (vy * FRICTION ^ Suc (length (momentum vx vy))) < MIN_VEL \<and>
     length (momentum vx vy) \<le> ticks_bound vx vy"
proof (intro conjI allI impI)
  assume p: "momentumRafId s = Some (Pending vx vy)"
  show "run_frames (Suc (length (momentum vx vy))) s =
       (s\<lparr>momentumRafId := Some Stale\<rparr>,
        map (\<lambda>k. OnPan (vx * FRICTION ^ k) (vy * FRICTION ^ k) False)
          [1 ..< Suc (length (momentum vx vy))])"
    using run_frames_momentum [OF p] momentum_map [of vx vy] by simp
next
  fix m assume "momentumRafId s = Some (Pending vx vy)" "m \<le> length (momentum vx vy)"
  then show "momentumRafId (fst (run_frames m s)) =
          Some (Pending (vx * FRICTION ^ m) (vy * FRICTION ^ m))"
    by (rule run_frames_pending)
next
  fix k assume k: "1 \<le> k \<and> k \<le> length (momentum vx vy)"
  then obtain j where "k = Suc j" "j < length (momentum vx vy)" by (cases k) auto
  with momentum_running [of j vx vy]
  show "\<not> (abs (vx * FRICTION ^ k) < MIN_VEL \<and> abs (vy * FRICTION ^ k) < MIN_VEL)" by simp
next
  show "abs (vx * FRICTION ^ Suc (length (momentum vx vy))) < MIN_VEL"
    using momentum_stops [of vx vy] by simp
next
  show "abs (vy * FRICTION ^ Suc (length (momentum vx vy))) < MIN_VEL"
    using momentum_stops [of vx vy] by simp
next
  show "length (momentum vx vy) \<le> ticks_bound vx vy" by (rule momentum_length_bound)
qed

text \<open>From velocity \<open>(10, 0)\<close>: 33 callbacks \<open>10 * 0.9^k\<close>, and the 34th frame stops.\<close>

lemma momentum_10_0: "length (momentum 10 0) = 33"
  by (simp add: momentum.simps step_def FRICTION_def MIN_VEL_def)

theorem momentum_decay_terminates_witness:
  "momentumRafId (init_gesture_state\<lparr>momentumRafId := Some (Pending 10 0)\<rparr>) = Some (Pending 10 0) \<and>
   length (momentum 10 0) = 33 \<and>
   run_frames 34 (init_gesture_state\<lparr>momentumRafId := Some (Pending 10 0)\<rparr>) =
     (init_gesture_state\<lparr>momentumRafId := Some Stale\<rparr>,
      map (\<lambda>k. OnPan (10 * FRICTION ^ k) 0 False) [1 ..< 34]) \<and>
   momentumRafId (fst (run_frames 1 (init_gesture_state\<lparr>momentumRafId := Some (Pending 10 0)\<rparr>))) =
     Some (Pending 9 0) \<and>
   \<not> abs (10 * FRICTION ^ 33) < MIN_VEL \<and>
   abs (10 * FRICTION ^ 34) < MIN_VEL \<and>
   33 \<le> ticks_bound 10 0"
proof -
  let ?s = "init_gesture_state\<lparr>momentumRafId := Some (Pending 10 0)\<rparr>"
  have p: "momentumRafId ?s = Some (Pending 10 0)" by simp
  note t = momentum_decay_terminates [OF p, unfolded momentum_10_0]
  have a: "run_frames 34 ?s =
     (init_gesture_state\<lparr>momentumRafId := Some Stale\<rparr>,
      map (\<lambda>k. OnPan (10 * FRICTION ^ k) 0 False) [1 ..< 34])"
    using t by simp
  from t have q: "\<And>m. m \<le> 33 \<Longrightarrow> momentumRafId (fst (run_frames m ?s)) =
      Some (Pending (10 * FRICTION ^ m) (0 * FRICTION ^ m))" by blast
  have b: "momentumRafId (fst (run_frames 1 ?s)) = Some (Pending 9 0)"
    using q [of 1] by (simp add: FRICTION_def)
  from t have r: "\<And>k. 1 \<le> k \<Longrightarrow> k \<le> 33 \<Longrightarrow>
      \<not> (abs (10 * FRICTION ^ k) < MIN_VEL \<and> abs (0 * FRICTION ^ k) < MIN_VEL)" by blast
  have c: "\<not> abs (10 * FRICTION ^ 33) < MIN_VEL"
    using r [of 33] by (simp add: MIN_VEL_def)
  have d: "abs (10 * FRICTION ^ 34) < MIN_VEL" using t by simp
  have e: "33 \<le> ticks_bound 10 0" using t by simp
  show ?thesis using p momentum_10_0 a b c d e by blast
qed

section \<open>Facts about the gesture engine\<close>

lemma map_get_absent: "\<not> map_has ps k \<Longrightarrow> map_get ps k = None"
  by (induction ps) (auto split: if_splits)

lemma map_delete_absent: "\<not> map_has ps k \<Longrightarrow> map_delete ps k = ps"
  by (induction ps) (auto split: if_splits)

lemma clearLongPress_eq: "clearLongPress s = s\<lparr>longPressTimer := None\<rparr>"
  by (cases s) (simp add: clearLongPress_def split: option.splits)

lemma cancelMomentum_eq: "cancelMomentum s = s\<lparr>momentumRafId := None\<rparr>"
  by (cases s) (simp add: cancelMomentum_def split: option.splits)

lemmas eval_gesture =
  onDown_def onUp_def onMove_def onCancel_def Let_def clearLongPress_eq cancelMomentum_eq
  init_gesture_state_def pointer_at_def TAP_GAP_def TAP_DIST_def startMomentum_def

lemma pressed_eq:
  "pressed = init_gesture_state\<lparr>
      pointers := [(1, \<lparr> pt_x = 100, pt_y = 100, pt_startX = 100, pt_startY = 100 \<rparr>)],
      lastPanX := 100, lastPanY := 100, panTimestamp := 2000,
      longPressTimer := Some (Armed 100 100) \<rparr>"
  by (simp add: pressed_def eval_gesture)


lemma onUp_last_contact:
  assumes "pointers s = [(pointerId e, pt)]" and "\<not> longPressFired s"
  shows "onUp s e =
     (if abs (clientX e - pt_startX pt) > 10 \<or> abs (clientY e - pt_startY pt) > 10
      then ((if sqrt ((panVelX s)\<^sup>2 + (panVelY s)\<^sup>2) > 15 / 10
             then s\<lparr>longPressTimer := None, pointers := [],
                    momentumRafId := Some (Pending (panVelX s) (panVelY s))\<rparr>
             else s\<lparr>longPressTimer := None, pointers := []\<rparr>), [OnPanEnd])
      else if timeStamp e - lastTapTime s < TAP_GAP \<and>
              abs (clientX e - lastTapX s) < TAP_DIST \<and> abs (clientY e - lastTapY s) < TAP_DIST
      then (s\<lparr>longPressTimer := None, pointers := [], lastTapTime := 0\<rparr>,
            [OnDoubleTap (clientX e) (clientY e), OnPanEnd])
      else (s\<lparr>longPressTimer := None, pointers := [], lastTapTime := timeStamp e,
              lastTapX := clientX e, lastTapY := clientY e\<rparr>,
            [OnTap (clientX e) (clientY e), OnPanEnd]))"
  using assms
  by (simp add: onUp_def Let_def clearLongPress_eq startMomentum_def)






section \<open>Pointer events with unknown ids\<close>

text \<open>
  Claim C9. A \<^verbatim>\<open>pointercancel\<close> whose pointer id is not among the active contacts is
  not a no-op: it clears a pending long-press timer, cancels a running momentum
  animation and calls \<^verbatim>\<open>onPanEnd()\<close>. A \<^verbatim>\<open>pointermove\<close> or \<^verbatim>\<open>pointerup\<close> with such
  an id changes no state and makes no callback.
\<close>

theorem cancel_unknown_pointer:
  "\<not> map_has (pointers s) (pointerId e) \<Longrightarrow>
     onCancel s e = (s\<lparr>longPressTimer := None, momentumRafId := None\<rparr>, [OnPanEnd]) \<and>
     onCancel s e \<noteq> (s, []) \<and>
     onMove s e = (s, []) \<and>
     onUp s e = (s, [])"
  by (simp add: onCancel_def onMove_def onUp_def map_get_absent map_delete_absent
      clearLongPress_eq cancelMomentum_eq)

text \<open>
  With one finger down and its long-press timer armed, and with a momentum frame
  pending, a cancel for the unknown id 7.
\<close>

theorem cancel_unknown_pointer_witness:
  "\<not> map_has (pointers pressed) (pointerId (pointer_at 7 0 0 2100)) \<and>
   longPressTimer pressed = Some (Armed 100 100) \<and>
   onCancel pressed (pointer_at 7 0 0 2100) =
     (pressed\<lparr>longPressTimer := None\<rparr>, [OnPanEnd]) \<and>
   onMove pressed (pointer_at 7 0 0 2100) =
     (pressed, []) \<and>
   onUp pressed (pointer_at 7 0 0 2100) =
     (pressed, []) \<and>
   onCancel (init_gesture_state\<lparr>momentumRafId := Some (Pending 9 0)\<rparr>) (pointer_at 7 0 0 2100) =
     (init_gesture_state, [OnPanEnd])"
proof -
  let ?s = "pressed"
  let ?m = "init_gesture_state\<lparr>momentumRafId := Some (Pending 9 0)\<rparr>"
  have h: "\<not> map_has (pointers ?s) (pointerId (pointer_at 7 0 0 2100))"
    unfolding pressed_eq by (simp add: pointer_at_def init_gesture_state_def)
  have h': "\<not> map_has (pointers ?m) (pointerId (pointer_at 7 0 0 2100))"
    by (simp add: pointer_at_def init_gesture_state_def)
  have t: "longPressTimer ?s = Some (Armed 100 100)" unfolding pressed_eq by simp
  have e: "?s\<lparr>longPressTimer := None, momentumRafId := None\<rparr> = ?s\<lparr>longPressTimer := None\<rparr>"
    unfolding pressed_eq by (simp add: init_gesture_state_def)
  have e': "?m\<lparr>longPressTimer := None, momentumRafId := None\<rparr> = init_gesture_state"
    by (simp add: init_gesture_state_def)
  show ?thesis
    using cancel_unknown_pointer [OF h] cancel_unknown_pointer [OF h'] h t e e' by simp
qed

section \<open>Tap or drag on release\<close>

text \<open>
  Claim C3, as the code has it. When the last finger lifts and no long-press has fired,
  the release is a tap (one \<^verbatim>\<open>onTap\<close> or \<^verbatim>\<open>onDoubleTap\<close>, then \<^verbatim>\<open>onPanEnd\<close>, and no
  momentum) exactly when the displacement from the start point is at most 10 px on each
  axis separately; it is a drag release (only \<^verbatim>\<open>onPanEnd\<close>; momentum starts when the
  speed exceeds 1.5) when it exceeds 10 px on either axis. The two cases are exhaustive
  and exclusive.
\<close>

theorem release_tap_or_drag:
  assumes "pointers s = [(pointerId e, pt)]" and "\<not> longPressFired s"
  shows "(abs (clientX e - pt_startX pt) \<le> 10 \<and> abs (clientY e - pt_startY pt) \<le> 10 \<longrightarrow>
            (snd (onUp s e) = [OnTap (clientX e) (clientY e), OnPanEnd] \<or>
             snd (onUp s e) = [OnDoubleTap (clientX e) (clientY e), OnPanEnd]) \<and>
            momentumRafId (fst (onUp s e)) = momentumRafId s) \<and>
         (abs (clientX e - pt_startX pt) > 10 \<or> abs (clientY e - pt_startY pt) > 10 \<longrightarrow>
            snd (onUp s e) = [OnPanEnd] \<and>
            momentumRafId (fst (onUp s e)) =
              (if sqrt ((panVelX s)\<^sup>2 + (panVelY s)\<^sup>2) > 15 / 10
               then Some (Pending (panVelX s) (panVelY s)) else momentumRafId s))"
  by (auto simp: onUp_last_contact [OF assms])

text \<open>A release at \<open>(dx, dy) = (5, 5)\<close> is a tap, one at \<open>(50, 0)\<close> a drag release.\<close>

theorem release_tap_or_drag_witness:
  "pointers pressed = [(1, \<lparr> pt_x = 100, pt_y = 100, pt_startX = 100, pt_startY = 100 \<rparr>)] \<and>
   \<not> longPressFired pressed \<and>
   (snd (onUp pressed (pointer_at 1 105 105 2050)) = [OnTap 105 105, OnPanEnd] \<or>
    snd (onUp pressed (pointer_at 1 105 105 2050)) = [OnDoubleTap 105 105, OnPanEnd]) \<and>
   snd (onUp pressed (pointer_at 1 150 100 2050)) = [OnPanEnd]"
proof -
  let ?pt = "\<lparr> pt_x = 100, pt_y = 100, pt_startX = 100, pt_startY = 100 \<rparr>"
  have p: "pointers pressed = [(1, ?pt)]"
    unfolding pressed_eq by simp
  have f: "\<not> longPressFired pressed"
    unfolding pressed_eq by (simp add: init_gesture_state_def)
  have p5: "pointers pressed = [(pointerId (pointer_at 1 105 105 2050), ?pt)]"
    using p by (simp add: pointer_at_def)
  have p50: "pointers pressed = [(pointerId (pointer_at 1 150 100 2050), ?pt)]"
    using p by (simp add: pointer_at_def)
  from release_tap_or_drag [OF p5 f]
  have a: "snd (onUp pressed (pointer_at 1 105 105 2050)) = [OnTap 105 105, OnPanEnd] \<or>
           snd (onUp pressed (pointer_at 1 105 105 2050)) = [OnDoubleTap 105 105, OnPanEnd]"
    by (simp add: pointer_at_def)
  from release_tap_or_drag [OF p50 f]
  have b: "snd (onUp pressed (pointer_at 1 150 100 2050)) = [OnPanEnd]"
    by (simp add: pointer_at_def)
  show ?thesis using p f a b by blast
qed

text \<open>
  Claim C3, as it is stated, measures the total displacement. A release at
  \<open>(dx, dy) = (8, 8)\<close> is more than 10 px from the start point (and also by the sum
  of the two axes), and the code calls it a tap.
\<close>

theorem tap_euclidean_counterexample:
  "snd (onUp pressed (pointer_at 1 108 108 2050)) = [OnTap 108 108, OnPanEnd] \<and>
   10 < spec_total_displacement
          \<lparr> pt_x = 100, pt_y = 100, pt_startX = 100, pt_startY = 100 \<rparr>
          (pointer_at 1 108 108 2050) \<and>
   10 < abs (clientX (pointer_at 1 108 108 2050) - 100) +
        abs (clientY (pointer_at 1 108 108 2050) - 100)"
proof (intro conjI)
  show "snd (onUp pressed (pointer_at 1 108 108 2050)) = [OnTap 108 108, OnPanEnd]"
    unfolding pressed_eq by (simp add: eval_gesture)
next
  have "(10::real)\<^sup>2 < 128" by simp
  hence "10 < sqrt 128" by (rule real_less_rsqrt)
  thus "10 < spec_total_displacement
          \<lparr> pt_x = 100, pt_y = 100, pt_startX = 100, pt_startY = 100 \<rparr>
          (pointer_at 1 108 108 2050)"
    by (simp add: spec_total_displacement_def pointer_at_def)
next
  show "10 < abs (clientX (pointer_at 1 108 108 2050) - 100) +
        abs (clientY (pointer_at 1 108 108 2050) - 100)"
    by (simp add: pointer_at_def)
qed

section \<open>Tap and double tap\<close>

lemma gap_before_first_event: "TAP_GAP \<le> SPLASH_MS"
  by (simp add: TAP_GAP_def SPLASH_MS_def)



text \<open>
  The bound on the time stamp is needed. Clearing the history writes the time 0, which
  the comparison reads as a tap at time 0: three taps with time stamps below 300, which
  no engine receives, would make a tap and two double taps.
\<close>

lemma third_tap_below_gap:
  "snd (gesture_run init_gesture_state
          [Down None (pointer_at 1 100 100 100), Up (pointer_at 1 100 100 110),
           Down None (pointer_at 1 100 100 150), Up (pointer_at 1 100 100 160),
           Down None (pointer_at 1 100 100 200), Up (pointer_at 1 100 100 210)]) =
     [OnTap 100 100, OnPanEnd, OnDoubleTap 100 100, OnPanEnd, OnDoubleTap 100 100, OnPanEnd]"
  by (simp add: eval_gesture)

section \<open>Pinch scale\<close>



section \<open>The view transform\<close>

lemma clamp_range: "mn \<le> mx \<Longrightarrow> mn \<le> clamp v mn mx \<and> clamp v mn mx \<le> mx"
  by (simp add: clamp_def)

lemma view_inv_init: "view_inv (init_reader m n w h)"
  by (simp add: view_inv_def init_reader_def)

lemma view_inv_clampPan:
  "minScale r = 1 \<Longrightarrow> maxScale r = 5 \<Longrightarrow> 1 \<le> scale r \<Longrightarrow> scale r \<le> 5 \<Longrightarrow>
     view_inv (clampPan r)"
  by (simp add: view_inv_def clampPan_def Let_def)

lemma view_inv_zoomTo:
  "view_inv r \<Longrightarrow> targetScale \<le> 5 \<Longrightarrow> view_inv (zoomTo r targetScale cx cy)"
proof (cases "targetScale \<le> 1")
  case True
  assume "view_inv r"
  with True show ?thesis by (simp add: zoomTo_def Let_def view_inv_def)
next
  case False
  assume i: "view_inv r" and t: "targetScale \<le> 5"
  have "view_inv (clampPan (r\<lparr>scale := targetScale, translateX := tx, translateY := ty\<rparr>))"
    for tx ty
    using i t False by (intro view_inv_clampPan) (simp_all add: view_inv_def)
  with False show ?thesis by (simp add: zoomTo_def Let_def)
qed

lemma view_inv_jumpToHPage:
  "view_inv r \<Longrightarrow> r_mode r = Horizontal \<Longrightarrow> view_inv (jumpToHPage r page)"
  by (simp add: view_inv_def jumpToHPage_def Let_def)

lemma view_inv_gesture: "view_inv r \<Longrightarrow> view_inv (gesture r cb)"
proof (cases cb)
  case (OnPan dx dy d)
  assume i: "view_inv r"
  show ?thesis
  proof (cases "r_mode r = Vertical \<and> scale r > 105 / 100")
    case True
    have "view_inv (clampPan (r\<lparr>translateX := translateX r + dx, translateY := translateY r + dy\<rparr>))"
      using i by (intro view_inv_clampPan) (simp_all add: view_inv_def)
    with True OnPan show ?thesis by simp
  next
    case False
    with i OnPan show ?thesis by (cases "r_mode r") (auto simp: view_inv_def)
  qed
next
  case OnPanEnd
  assume i: "view_inv r"
  show ?thesis
  proof (cases "r_mode r = Horizontal \<and> scale r \<le> 105 / 100")
    case True
    with i have "view_inv (snapHorizontalPage r)"
      unfolding snapHorizontalPage_def Let_def by (intro view_inv_jumpToHPage) simp_all
    with True OnPanEnd show ?thesis by simp
  next
    case False
    with i OnPanEnd show ?thesis by auto
  qed
next
  case (OnPinch newScale midX midY panDx panDy)
  assume i: "view_inv r"
  hence m: "minScale r = 1" "maxScale r = 5" by (simp_all add: view_inv_def)
  have "view_inv (clampPan (r\<lparr> scale := clamp newScale (minScale r) (maxScale r),
                  translateX := panDx, translateY := panDy \<rparr>))"
    using m clamp_range [of 1 5 newScale] by (intro view_inv_clampPan) simp_all
  with OnPinch show ?thesis by simp
next
  case OnPinchEnd
  assume "view_inv r"
  with OnPinchEnd show ?thesis by (simp add: view_inv_zoomTo)
next
  case (OnTap x y)
  assume "view_inv r"
  with OnTap show ?thesis by (simp add: view_inv_def)
next
  case (OnDoubleTap x y)
  assume "view_inv r"
  with OnDoubleTap show ?thesis by (simp add: view_inv_zoomTo)
next
  case (OnLongPress x y)
  assume "view_inv r"
  with OnLongPress show ?thesis by simp
qed

lemma view_inv_step: "view_inv r \<Longrightarrow> view_inv (reader_step r ev)"
proof (cases ev)
  case (Gesture cb)
  assume "view_inv r"
  with Gesture show ?thesis by (simp add: view_inv_gesture)
next
  case (JumpPage dir)
  assume "view_inv r"
  with JumpPage show ?thesis
    by (cases "r_mode r") (simp_all add: jumpPage_def view_inv_jumpToHPage)
next
  case (Scrub page)
  assume "view_inv r"
  with Scrub show ?thesis
    by (cases "r_mode r") (simp_all add: doScrub_def view_inv_jumpToHPage)
next
  case ToggleMode
  assume "view_inv r"
  with ToggleMode show ?thesis by (simp add: toggleMode_def initLayout_def view_inv_def)
next
  case (ToggleRestore p)
  assume "view_inv r"
  with ToggleRestore show ?thesis
    by (cases "r_mode r") (simp_all add: toggleRestore_def view_inv_jumpToHPage)
next
  case (PageChanged p)
  assume "view_inv r"
  with PageChanged show ?thesis by (simp add: view_inv_def)
qed

lemma view_inv_run: "view_inv r \<Longrightarrow> view_inv (reader_run r evs)"
  unfolding reader_run_def by (induction evs arbitrary: r) (simp_all add: view_inv_step)

text \<open>
  Claim C4, as the code has it. After every mutation (tap, double-tap zoom, pan, pan
  end, pinch, pinch end, page jump, scrub, mode toggle and its delayed restore, page
  change), in both modes, the scale stays within \<open>[minScale, maxScale] = [1, 5]\<close>, and
  whenever the scale is at most 1 the vertical translate is 0 and, in vertical mode,
  the horizontal translate is 0 as well. The invariant holds when the reader is
  created, every event keeps it, and so it holds after every sequence of events.
\<close>

theorem view_transform_invariant:
  "view_inv (init_reader m n w h) \<and>
   (view_inv r \<longrightarrow> view_inv (reader_step r ev)) \<and>
   view_inv (reader_run (init_reader m n w h) evs)"
  by (simp add: view_inv_init view_inv_step view_inv_run)

text \<open>
  A double tap zooms to 2.5; a pinch to half the size is clamped to scale 1 with the
  translate back at \<open>(0, 0)\<close>; a page jump in horizontal mode keeps the invariant.
\<close>

theorem view_transform_invariant_witness:
  "scale (reader_run (init_reader Vertical 3 400 800)
            [Gesture (OnDoubleTap 300 500), Gesture (OnPinch (1 / 2) 200 400 30 40)]) = 1 \<and>
   translateX (reader_run (init_reader Vertical 3 400 800)
            [Gesture (OnDoubleTap 300 500), Gesture (OnPinch (1 / 2) 200 400 30 40)]) = 0 \<and>
   translateY (reader_run (init_reader Vertical 3 400 800)
            [Gesture (OnDoubleTap 300 500), Gesture (OnPinch (1 / 2) 200 400 30 40)]) = 0 \<and>
   scale (reader_run (init_reader Vertical 3 400 800) [Gesture (OnDoubleTap 300 500)]) = 5 / 2 \<and>
   view_inv (reader_step (init_reader Horizontal 3 400 800) (JumpPage 1))"
proof -
  let ?r = "reader_run (init_reader Vertical 3 400 800)
            [Gesture (OnDoubleTap 300 500), Gesture (OnPinch (1 / 2) 200 400 30 40)]"
  have s: "scale ?r = 1"
    by (simp add: reader_run_def init_reader_def zoomTo_def clampPan_def clamp_def Let_def)
  have m: "r_mode ?r = Vertical"
    by (simp add: reader_run_def init_reader_def zoomTo_def clampPan_def clamp_def Let_def)
  have d: "scale (reader_run (init_reader Vertical 3 400 800) [Gesture (OnDoubleTap 300 500)]) = 5 / 2"
    by (simp add: reader_run_def init_reader_def zoomTo_def clampPan_def clamp_def Let_def)
  from view_transform_invariant [of Vertical 3 400 800 _ _
      "[Gesture (OnDoubleTap 300 500), Gesture (OnPinch (1 / 2) 200 400 30 40)]"]
  have "view_inv ?r" by blast
  with s m have t: "translateX ?r = 0" "translateY ?r = 0" by (simp_all add: view_inv_def)
  from view_transform_invariant [of Horizontal 3 400 800 "init_reader Horizontal 3 400 800" "JumpPage 1" "[]"]
  have j: "view_inv (reader_step (init_reader Horizontal 3 400 800) (JumpPage 1))" by blast
  show ?thesis using s t d j by simp
qed

text \<open>
  Claim C4, as it is stated, pins both translate components at a scale of at most 1
  in both modes. In horizontal mode the horizontal translate is the page position: after
  a toggle to horizontal mode, a jump to the next page of a viewport 400 px wide leaves
  the scale at 1 and the translate at \<open>-400\<close>.
\<close>

theorem horizontal_jump_counterexample:
  "scale (reader_run (init_reader Vertical 3 400 800) [ToggleMode, JumpPage 1]) = 1 \<and>
   translateX (reader_run (init_reader Vertical 3 400 800) [ToggleMode, JumpPage 1]) = - 400"
  by (simp add: reader_run_def init_reader_def toggleMode_def initLayout_def jumpPage_def
      jumpToHPage_def clamp_def Let_def)

section \<open>Horizontal page jumps\<close>

text \<open>
  Claim C10. \<^verbatim>\<open>_jumpToHPage\<close> clamps its page argument before it computes the offset:
  for every page, in range or not, the horizontal translate becomes
  \<open>-(clamp(page, 1, totalPages) - 1) * viewportWidth\<close> and nothing else changes. For a
  document with at least one page the clamped page lies in \<open>[1, totalPages]\<close>: pages
  below 1 give offset 0, pages above \<open>totalPages\<close> the offset of the last page, pages in
  range their own offset.
\<close>

theorem jumpToHPage_clamps:
  "jumpToHPage r page =
     r\<lparr>translateX := - (of_int (clamp page 1 (totalPages r) - 1)) * clientWidth r\<rparr> \<and>
   (1 \<le> totalPages r \<longrightarrow>
      1 \<le> clamp page 1 (totalPages r) \<and> clamp page 1 (totalPages r) \<le> totalPages r \<and>
      (page < 1 \<longrightarrow> translateX (jumpToHPage r page) = 0) \<and>
      (totalPages r < page \<longrightarrow>
         translateX (jumpToHPage r page) = - (of_int (totalPages r - 1)) * clientWidth r) \<and>
      (1 \<le> page \<and> page \<le> totalPages r \<longrightarrow>
         translateX (jumpToHPage r page) = - (of_int (page - 1)) * clientWidth r))"
  by (auto simp: jumpToHPage_def Let_def clamp_def)

text \<open>Ten pages, a viewport 400 px wide: pages 0, 15 and 3.\<close>

theorem jumpToHPage_clamps_witness:
  "(1::int) \<le> totalPages (init_reader Horizontal 10 400 800) \<and>
   translateX (jumpToHPage (init_reader Horizontal 10 400 800) 0) = 0 \<and>
   translateX (jumpToHPage (init_reader Horizontal 10 400 800) 15) = - 3600 \<and>
   translateX (jumpToHPage (init_reader Horizontal 10 400 800) 3) = - 800"
proof -
  let ?r = "init_reader Horizontal 10 400 800"
  have t: "totalPages ?r = 10" and w: "clientWidth ?r = 400" by (simp_all add: init_reader_def)
  have h: "1 \<le> totalPages ?r" by (simp add: t)
  have "(0::int) < 1" by simp
  with jumpToHPage_clamps [of ?r 0] h
  have a: "translateX (jumpToHPage ?r 0) = 0" by blast
  have "totalPages ?r < 15" by (simp add: t)
  with jumpToHPage_clamps [of ?r 15] h
  have "translateX (jumpToHPage ?r 15) = - (of_int (totalPages ?r - 1)) * clientWidth ?r"
    by blast
  hence b: "translateX (jumpToHPage ?r 15) = - 3600" by (simp add: t w)
  have "(1::int) \<le> 3 \<and> 3 \<le> totalPages ?r" by (simp add: t)
  with jumpToHPage_clamps [of ?r 3] h
  have "translateX (jumpToHPage ?r 3) = - (of_int (3 - 1)) * clientWidth ?r"
    by blast
  hence c: "translateX (jumpToHPage ?r 3) = - 800" by (simp add: w)
  show ?thesis using h a b c by blast
qed

section \<open>Render tasks per page\<close>

lemmas eval_renderer =
  init_renderer_def renderPage_begin_def renderPage_resume_def renderPage_reject_def
  renderPage_settle_def cancelPage_def task_cancel_def settle_status_def awaiting_def
  outstanding_def Let_def

lemmas eval_vscroll =
  init_page_system_def init_virtual_scroll_def vs_run_def vs_step_def onIntersect1_def
  scheduleRender_def renderSlot_def evictFarPages_def evictPage_def farthest_from_def
  slot_of_def slot_update_def onDone_def set_add_def set_delete_def entry_at_def

text \<open>
  A request for a page whose task is recorded cancels that task exactly once, before
  it suspends and long before the new task is issued, and removes the record.
\<close>

lemma renderPage_begin_cancels_recorded:
  assumes "map_get (r_rendered r) pageNum = Some rc" and "rec_renderTask rc < length (tasks r)"
  shows "cancel_calls (tasks (renderPage_begin r pageNum c) ! rec_renderTask rc) =
           Suc (cancel_calls (tasks r ! rec_renderTask rc)) \<and>
         task_status (tasks (renderPage_begin r pageNum c) ! rec_renderTask rc) \<noteq> Running \<and>
         r_rendered (renderPage_begin r pageNum c) = map_delete (r_rendered r) pageNum"
  using assms by (simp add: renderPage_begin_def cancelPage_def task_cancel_def Let_def)

text \<open>
  Claim C5, at the input where the code departs from it. \<^verbatim>\<open>renderPage\<close> cancels the
  recorded task before \<^verbatim>\<open>await this.pdfDoc.getPage(pageNum)\<close> and records its own task
  after it. Two requests for page 1 that both start before either page load resolves
  find nothing recorded and cancel nothing; when the page loads resolve, each issues
  its task. Tasks 0 and 1 are then both running for page 1, \<^verbatim>\<open>cancel()\<close> was called on
  neither, and only task 1 is recorded, so that task 0 can no longer be cancelled.
\<close>

theorem overlapping_renders_two_outstanding:
  "outstanding
     (renderPage_resume (renderPage_resume
        (renderPage_begin (renderPage_begin init_renderer 1 1) 1 2) 0) 1) 1 = [0, 1] \<and>
   map cancel_calls (tasks
     (renderPage_resume (renderPage_resume
        (renderPage_begin (renderPage_begin init_renderer 1 1) 1 2) 0) 1)) = [0, 0] \<and>
   r_rendered
     (renderPage_resume (renderPage_resume
        (renderPage_begin (renderPage_begin init_renderer 1 1) 1 2) 0) 1) =
     [(1, \<lparr> rec_canvas = 2, rec_renderTask = 1 \<rparr>)]"
  by (simp add: eval_renderer upt_rec)

section \<open>Failed and cancelled renders\<close>

text \<open>
  Claim C2, at the input where the code departs from it. Page 1 comes into view, its
  page load resolves and its render task is issued; then the task's promise rejects
  with an error. \<^verbatim>\<open>renderPage\<close> catches the rejection and returns normally, so the
  \<^verbatim>\<open>catch\<close> in \<^verbatim>\<open>_renderSlot\<close> that removes the page from \<^verbatim>\<open>_pending\<close> does not run:
  page 1 stays pending and is not rendered, and a further visibility event for page 1
  changes nothing and starts no render (the only call of \<^verbatim>\<open>renderPage\<close> is the one
  that returned).
\<close>

theorem failed_render_stays_pending:
  "vs_pending (vscroll (vs_run (init_page_system 3 Vertical 400 1000)
      [Intersect (entry_at 1 True 0), GetPageResolved 0, TaskSettled 0 RejectedError])) = [1] \<and>
   vs_rendered (vscroll (vs_run (init_page_system 3 Vertical 400 1000)
      [Intersect (entry_at 1 True 0), GetPageResolved 0, TaskSettled 0 RejectedError])) = [] \<and>
   vs_step (vs_run (init_page_system 3 Vertical 400 1000)
      [Intersect (entry_at 1 True 0), GetPageResolved 0, TaskSettled 0 RejectedError])
      (Intersect (entry_at 1 True 0)) =
   vs_run (init_page_system 3 Vertical 400 1000)
      [Intersect (entry_at 1 True 0), GetPageResolved 0, TaskSettled 0 RejectedError] \<and>
   map call_phase (calls (renderer (vs_run (init_page_system 3 Vertical 400 1000)
      [Intersect (entry_at 1 True 0), GetPageResolved 0, TaskSettled 0 RejectedError,
       Intersect (entry_at 1 True 0)]))) = [Returned]"
  by (simp add: eval_vscroll eval_renderer upt_rec)

text \<open>
  The same holds when the promise rejects with a \<^verbatim>\<open>RenderingCancelledException\<close>. Only
  a rejected page load reaches the \<^verbatim>\<open>catch\<close> of \<^verbatim>\<open>_renderSlot\<close>: then the page leaves
  \<^verbatim>\<open>_pending\<close> and the next visibility event starts a second call.
\<close>

lemma cancelled_render_stays_pending:
  "vs_pending (vscroll (vs_run (init_page_system 3 Vertical 400 1000)
      [Intersect (entry_at 1 True 0), GetPageResolved 0, TaskSettled 0 RejectedCancelled])) = [1]"
  by (simp add: eval_vscroll eval_renderer upt_rec)

lemma rejected_page_load_is_retried:
  "vs_pending (vscroll (vs_run (init_page_system 3 Vertical 400 1000)
      [Intersect (entry_at 1 True 0), GetPageRejected 0])) = [] \<and>
   map call_phase (calls (renderer (vs_run (init_page_system 3 Vertical 400 1000)
      [Intersect (entry_at 1 True 0), GetPageRejected 0, Intersect (entry_at 1 True 0)]))) =
     [Threw, AwaitGetPage]"
  by (simp add: eval_vscroll eval_renderer upt_rec)

section \<open>Eviction and the render budget\<close>

lemma slot_update_fields [simp]:
  "vs_rendered (slot_update f v p) = vs_rendered v"
  "vs_pending (slot_update f v p) = vs_pending v"
  "vs_currentPage (slot_update f v p) = vs_currentPage v"
  "maxBuffered (slot_update f v p) = maxBuffered v"
  "vs_mode (slot_update f v p) = vs_mode v"
  by (simp_all add: slot_update_def)

lemma evictPage_rendered:
  "vs_rendered (vscroll (evictPage sys q)) =
     (if abs (q - vs_currentPage (vscroll sys)) \<le> 2 then vs_rendered (vscroll sys)
      else removeAll q (vs_rendered (vscroll sys)))"
  by (simp add: evictPage_def Let_def set_delete_def)

lemma evictPage_currentPage [simp]:
  "vs_currentPage (vscroll (evictPage sys q)) = vs_currentPage (vscroll sys)"
  by (simp add: evictPage_def Let_def)

lemma farthest_fold:
  "fold (\<lambda>p (farthest, maxDist).
           (let d = abs (p - n) in if d > maxDist then (p, d) else (farthest, maxDist)))
        ps (f0, m0) = (f, m) \<Longrightarrow>
   (f = f0 \<and> m = m0) \<or> (f \<in> set ps \<and> m = abs (f - n))"
proof (induction ps arbitrary: f0 m0)
  case Nil
  then show ?case by simp
next
  case (Cons p ps)
  show ?case
  proof (cases "abs (p - n) > m0")
    case True
    with Cons.prems have "fold (\<lambda>p (farthest, maxDist).
           (let d = abs (p - n) in if d > maxDist then (p, d) else (farthest, maxDist)))
        ps (p, abs (p - n)) = (f, m)" by (simp add: Let_def)
    from Cons.IH [OF this] show ?thesis by auto
  next
    case False
    with Cons.prems have "fold (\<lambda>p (farthest, maxDist).
           (let d = abs (p - n) in if d > maxDist then (p, d) else (farthest, maxDist)))
        ps (f0, m0) = (f, m)" by (simp add: Let_def)
    from Cons.IH [OF this] show ?thesis by auto
  qed
qed

lemma farthest_from_far:
  "farthest_from ps n = (f, m) \<Longrightarrow> m > 3 \<Longrightarrow> f \<in> set ps \<and> m = abs (f - n)"
  unfolding farthest_from_def by (drule farthest_fold) auto

lemma evictFarPages_rendered:
  "vs_rendered (vscroll (evictFarPages sys n)) = vs_rendered (vscroll sys) \<or>
   (\<exists>q. q \<in> set (vs_rendered (vscroll sys)) \<and>
        maxBuffered (vscroll sys) \<le> length (vs_rendered (vscroll sys)) \<and>
        abs (q - n) > 3 \<and> abs (q - vs_currentPage (vscroll sys)) > 2 \<and>
        vs_rendered (vscroll (evictFarPages sys n)) = removeAll q (vs_rendered (vscroll sys)))"
proof (cases "length (vs_rendered (vscroll sys)) < maxBuffered (vscroll sys)")
  case True
  then show ?thesis by (simp add: evictFarPages_def Let_def)
next
  case False
  obtain f m where fm: "farthest_from (vs_rendered (vscroll sys)) n = (f, m)"
    by (cases "farthest_from (vs_rendered (vscroll sys)) n")
  show ?thesis
  proof (cases "f > 0 \<and> m > 3 \<and> slot_of (vscroll sys) f \<noteq> None \<and>
                abs (f - vs_currentPage (vscroll sys)) > 2")
    case True
    with farthest_from_far [OF fm] have "f \<in> set (vs_rendered (vscroll sys))" "abs (f - n) > 3"
      by auto
    moreover have "vs_rendered (vscroll (evictFarPages sys n)) =
        removeAll f (vs_rendered (vscroll sys))"
      using True False fm by (auto simp: evictFarPages_def Let_def evictPage_rendered)
    ultimately show ?thesis using True False by auto
  next
    case F2: False
    have "vs_rendered (vscroll (evictFarPages sys n)) = vs_rendered (vscroll sys)"
      using F2 False fm
      by (auto simp: evictFarPages_def Let_def evictPage_rendered split: option.splits)
    then show ?thesis by simp
  qed
qed

lemma evictFarPages_currentPage [simp]:
  "vs_currentPage (vscroll (evictFarPages sys n)) = vs_currentPage (vscroll sys)"
  by (simp add: evictFarPages_def Let_def split: prod.splits option.splits)

lemma scheduleRender_rendered:
  "vs_rendered (vscroll (scheduleRender sys n)) = vs_rendered (vscroll sys) \<or>
   (\<exists>q. q \<in> set (vs_rendered (vscroll sys)) \<and>
        maxBuffered (vscroll sys) \<le> length (vs_rendered (vscroll sys)) \<and>
        abs (q - n) > 3 \<and> abs (q - vs_currentPage (vscroll sys)) > 2 \<and>
        vs_rendered (vscroll (scheduleRender sys n)) = removeAll q (vs_rendered (vscroll sys)))"
proof (cases "n \<in> set (vs_rendered (vscroll sys)) \<or> n \<in> set (vs_pending (vscroll sys))")
  case True
  then show ?thesis by (simp add: scheduleRender_def Let_def)
next
  case False
  let ?sys1 = "sys\<lparr>vscroll := (vscroll sys)\<lparr>vs_pending := set_add (vs_pending (vscroll sys)) n\<rparr>\<rparr>"
  have "vs_rendered (vscroll (scheduleRender sys n)) = vs_rendered (vscroll (evictFarPages ?sys1 n))"
    using False by (simp add: scheduleRender_def renderSlot_def Let_def)
  with evictFarPages_rendered [of ?sys1 n] show ?thesis by simp
qed

lemma onIntersect1_rendered:
  "isIntersecting en \<Longrightarrow>
     vs_rendered (vscroll (onIntersect1 sys en)) = vs_rendered (vscroll (scheduleRender sys (entry_page en)))"
  by (simp add: onIntersect1_def Let_def)

lemma onDone_rendered: "set (vs_rendered v) \<subseteq> set (vs_rendered (onDone v p))"
  by (auto simp: onDone_def Let_def set_add_def)

lemma fold_onDone_rendered:
  "set (vs_rendered v) \<subseteq> set (vs_rendered (fold (\<lambda>c v. onDone v (g c)) cs v))"
proof (induction cs arbitrary: v)
  case Nil
  then show ?case by simp
next
  case (Cons c cs)
  have "set (vs_rendered v) \<subseteq> set (vs_rendered (onDone v (g c)))" by (rule onDone_rendered)
  also have "\<dots> \<subseteq> set (vs_rendered (fold (\<lambda>c v. onDone v (g c)) cs (onDone v (g c))))"
    by (rule Cons.IH)
  finally show ?case by simp
qed

lemma vs_step_retains:
  assumes "p \<in> set (vs_rendered (vscroll sys))"
    and "abs (p - vs_currentPage (vscroll sys)) \<le> 2"
  shows "p \<in> set (vs_rendered (vscroll (vs_step sys ev)))"
proof (cases ev)
  case (Intersect en)
  show ?thesis
  proof (cases "isIntersecting en")
    case True
    from scheduleRender_rendered [of sys "entry_page en"] assms
    have "p \<in> set (vs_rendered (vscroll (scheduleRender sys (entry_page en))))" by auto
    with True Intersect show ?thesis by (simp add: vs_step_def onIntersect1_rendered)
  next
    case False
    with Intersect assms show ?thesis
      by (auto simp: vs_step_def onIntersect1_def evictPage_rendered)
  qed
next
  case (GetPageResolved c)
  with assms show ?thesis by (simp add: vs_step_def)
next
  case (GetPageRejected c)
  with assms show ?thesis by (simp add: vs_step_def Let_def)
next
  case (TaskSettled t how)
  with assms
    fold_onDone_rendered [of "vscroll sys" "\<lambda>c. call_page (calls (renderer sys) ! c)"
      "snd (renderPage_settle (renderer sys) t how)"]
  show ?thesis
    by (auto simp: vs_step_def split_beta)
next
  case (CanvasRemoveTimeout q)
  with assms show ?thesis by (simp add: vs_step_def)
qed

lemma five_rendered_eq:
  "five_rendered =
     \<lparr> renderer =
         \<lparr> r_rendered =
             [(1, \<lparr> rec_canvas = 1, rec_renderTask = 0 \<rparr>),
              (2, \<lparr> rec_canvas = 2, rec_renderTask = 1 \<rparr>),
              (3, \<lparr> rec_canvas = 3, rec_renderTask = 2 \<rparr>),
              (4, \<lparr> rec_canvas = 4, rec_renderTask = 3 \<rparr>),
              (5, \<lparr> rec_canvas = 5, rec_renderTask = 4 \<rparr>)],
           tasks =
             [\<lparr> task_page = 1, task_status = Completed, cancel_calls = 0 \<rparr>,
              \<lparr> task_page = 2, task_status = Completed, cancel_calls = 0 \<rparr>,
              \<lparr> task_page = 3, task_status = Completed, cancel_calls = 0 \<rparr>,
              \<lparr> task_page = 4, task_status = Completed, cancel_calls = 0 \<rparr>,
              \<lparr> task_page = 5, task_status = Completed, cancel_calls = 0 \<rparr>],
           calls =
             [\<lparr> call_page = 1, call_canvas = 1, call_phase = Returned \<rparr>,
              \<lparr> call_page = 2, call_canvas = 2, call_phase = Returned \<rparr>,
              \<lparr> call_page = 3, call_canvas = 3, call_phase = Returned \<rparr>,
              \<lparr> call_page = 4, call_canvas = 4, call_phase = Returned \<rparr>,
              \<lparr> call_page = 5, call_canvas = 5, call_phase = Returned \<rparr>] \<rparr>,
       vscroll =
         \<lparr> vs_mode = Vertical,
           slots =
             [\<lparr> has_placeholder = False, has_canvas = True, removal_pending = False \<rparr>,
              \<lparr> has_placeholder = False, has_canvas = True, removal_pending = False \<rparr>,
              \<lparr> has_placeholder = False, has_canvas = True, removal_pending = False \<rparr>,
              \<lparr> has_placeholder = False, has_canvas = True, removal_pending = False \<rparr>,
              \<lparr> has_placeholder = False, has_canvas = True, removal_pending = False \<rparr>,
              \<lparr> has_placeholder = True, has_canvas = False, removal_pending = False \<rparr>,
              \<lparr> has_placeholder = True, has_canvas = False, removal_pending = False \<rparr>,
              \<lparr> has_placeholder = True, has_canvas = False, removal_pending = False \<rparr>],
           vs_rendered = [1, 2, 3, 4, 5], vs_pending = [], maxBuffered = 5,
           vs_currentPage = 3, viewW = 400, viewH = 1000 \<rparr> \<rparr>"
  by (simp add: five_rendered_def eval_vscroll eval_renderer upt_rec numeral_eq_Suc)

lemma onIntersect_run: "onIntersect sys entries = vs_run sys (map Intersect entries)"
  by (induction entries arbitrary: sys) (simp_all add: onIntersect_def vs_run_def vs_step_def)

lemma vs_run_retains:
  "p \<in> set (vs_rendered (vscroll sys)) \<Longrightarrow> stays_near sys evs p \<Longrightarrow>
     p \<in> set (vs_rendered (vscroll (vs_run sys evs)))"
proof (induction evs arbitrary: sys)
  case Nil
  then show ?case by (simp add: vs_run_def)
next
  case (Cons ev evs)
  from Cons.prems have "p \<in> set (vs_rendered (vscroll (vs_step sys ev)))"
    by (simp add: vs_step_retains)
  moreover from Cons.prems have "stays_near (vs_step sys ev) evs p" by simp
  ultimately have "p \<in> set (vs_rendered (vscroll (vs_run (vs_step sys ev) evs)))"
    by (rule Cons.IH)
  then show ?case by (simp add: vs_run_def)
qed

text \<open>
  The memory guard at work: when a render is scheduled with at least \<^verbatim>\<open>_maxBuffered\<close>
  pages rendered, and the rendered page farthest from the page being scheduled is more
  than 3 from it and more than 2 from the current page, that page is evicted.
\<close>

lemma evictFarPages_evicts:
  assumes "maxBuffered (vscroll sys) \<le> length (vs_rendered (vscroll sys))"
    and "farthest_from (vs_rendered (vscroll sys)) n = (f, m)"
    and "3 < m" and "slot_of (vscroll sys) f \<noteq> None"
    and "2 < abs (f - vs_currentPage (vscroll sys))"
  shows "vs_rendered (vscroll (evictFarPages sys n)) = removeAll f (vs_rendered (vscroll sys)) \<and>
         f \<in> set (vs_rendered (vscroll sys)) \<and> m = abs (f - n)"
proof -
  have pos: "0 < f" using assms(4) by (simp add: slot_of_def split: if_splits)
  have "vs_rendered (vscroll (evictFarPages sys n)) = removeAll f (vs_rendered (vscroll sys))"
    using assms pos by (auto simp: evictFarPages_def Let_def evictPage_rendered)
  with farthest_from_far [OF assms(2,3)] show ?thesis by simp
qed

text \<open>
  Retention, the part of claim C1 that the code keeps. At every state of the manager,
  whatever sequence of visibility changes, page loads and render completions led to it,
  an event evicts no rendered page within index distance 2 of the current page; so a
  rendered page that stays within 2 of the current page throughout a sequence of events
  is still rendered at its end. Scheduling a render for a page that comes into view
  evicts at most one page: only when at least \<^verbatim>\<open>_maxBuffered\<close> pages are rendered, and
  then a rendered page that is more than 3 from the page being scheduled and more than
  2 from the current page.
\<close>

lemma near_pages_retained:
  "(p \<in> set (vs_rendered (vscroll sys)) \<and> abs (p - vs_currentPage (vscroll sys)) \<le> 2 \<longrightarrow>
      p \<in> set (vs_rendered (vscroll (vs_step sys ev)))) \<and>
   (p \<in> set (vs_rendered (vscroll sys)) \<and> stays_near sys evs p \<longrightarrow>
      p \<in> set (vs_rendered (vscroll (vs_run sys evs)))) \<and>
   (isIntersecting en \<longrightarrow>
      vs_rendered (vscroll (vs_step sys (Intersect en))) = vs_rendered (vscroll sys) \<or>
      (\<exists>q. q \<in> set (vs_rendered (vscroll sys)) \<and>
           maxBuffered (vscroll sys) \<le> length (vs_rendered (vscroll sys)) \<and>
           abs (q - entry_page en) > 3 \<and> abs (q - vs_currentPage (vscroll sys)) > 2 \<and>
           vs_rendered (vscroll (vs_step sys (Intersect en))) =
             removeAll q (vs_rendered (vscroll sys))))"
proof (intro conjI impI)
  assume "p \<in> set (vs_rendered (vscroll sys)) \<and> abs (p - vs_currentPage (vscroll sys)) \<le> 2"
  then show "p \<in> set (vs_rendered (vscroll (vs_step sys ev)))"
    by (simp add: vs_step_retains)
next
  assume "p \<in> set (vs_rendered (vscroll sys)) \<and> stays_near sys evs p"
  then show "p \<in> set (vs_rendered (vscroll (vs_run sys evs)))"
    by (simp add: vs_run_retains)
next
  assume "isIntersecting en"
  then show "vs_rendered (vscroll (vs_step sys (Intersect en))) = vs_rendered (vscroll sys) \<or>
      (\<exists>q. q \<in> set (vs_rendered (vscroll sys)) \<and>
           maxBuffered (vscroll sys) \<le> length (vs_rendered (vscroll sys)) \<and>
           abs (q - entry_page en) > 3 \<and> abs (q - vs_currentPage (vscroll sys)) > 2 \<and>
           vs_rendered (vscroll (vs_step sys (Intersect en))) =
             removeAll q (vs_rendered (vscroll sys)))"
    using scheduleRender_rendered [of sys "entry_page en"]
    by (simp add: vs_step_def onIntersect1_rendered)
qed

text \<open>
  Pages 1 to 5 are rendered and page 3 is current. Page 6 comes into view: page 1, the
  farthest from page 6, is the candidate and survives, as it does when its own slot
  leaves the view, and it is still rendered when the render of page 6 has completed.
  Once page 6 is current and page 7 comes into view, page 1 is evicted.
\<close>

lemma near_pages_retained_example:
  "(1::int) \<in> set (vs_rendered (vscroll five_rendered)) \<and>
   abs (1 - vs_currentPage (vscroll five_rendered)) \<le> 2 \<and>
   maxBuffered (vscroll five_rendered) \<le> length (vs_rendered (vscroll five_rendered)) \<and>
   isIntersecting (entry_at 6 True 1950) \<and>
   1 \<in> set (vs_rendered (vscroll (vs_step five_rendered (Intersect (entry_at 6 True 1950))))) \<and>
   1 \<in> set (vs_rendered (vscroll (vs_step five_rendered (Intersect (entry_at 1 False (- 1700)))))) \<and>
   vs_rendered (vscroll (vs_run five_rendered
      [Intersect (entry_at 6 True 200), Intersect (entry_at 7 True 800)])) = [2, 3, 4, 5] \<and>
   stays_near five_rendered
     [Intersect (entry_at 6 True 1950), GetPageResolved 5, TaskSettled 5 Fulfilled] 1 \<and>
   1 \<in> set (vs_rendered (vscroll (vs_run five_rendered
     [Intersect (entry_at 6 True 1950), GetPageResolved 5, TaskSettled 5 Fulfilled])))"
proof -
  have a: "(1::int) \<in> set (vs_rendered (vscroll five_rendered))"
    unfolding five_rendered_eq by simp
  have b: "abs (1 - vs_currentPage (vscroll five_rendered)) \<le> 2"
    unfolding five_rendered_eq by simp
  have c: "maxBuffered (vscroll five_rendered) \<le> length (vs_rendered (vscroll five_rendered))"
    unfolding five_rendered_eq by simp
  have d: "isIntersecting (entry_at 6 True 1950)" by (simp add: entry_at_def)
  from near_pages_retained [of 1 five_rendered "Intersect (entry_at 6 True 1950)"] a b
  have e: "1 \<in> set (vs_rendered (vscroll (vs_step five_rendered
                  (Intersect (entry_at 6 True 1950)))))" by blast
  from near_pages_retained [of 1 five_rendered "Intersect (entry_at 1 False (- 1700))"] a b
  have f: "1 \<in> set (vs_rendered (vscroll (vs_step five_rendered
                  (Intersect (entry_at 1 False (- 1700))))))" by blast
  have g: "vs_rendered (vscroll (vs_run five_rendered
      [Intersect (entry_at 6 True 200), Intersect (entry_at 7 True 800)])) = [2, 3, 4, 5]"
    unfolding five_rendered_eq
    by (simp add: eval_vscroll eval_renderer upt_rec numeral_eq_Suc)
  have h: "stays_near five_rendered
     [Intersect (entry_at 6 True 1950), GetPageResolved 5, TaskSettled 5 Fulfilled] 1"
    unfolding five_rendered_eq
    by (simp add: eval_vscroll eval_renderer upt_rec numeral_eq_Suc)
  from near_pages_retained [of 1 five_rendered _
      "[Intersect (entry_at 6 True 1950), GetPageResolved 5, TaskSettled 5 Fulfilled]"] a h
  have i: "1 \<in> set (vs_rendered (vscroll (vs_run five_rendered
     [Intersect (entry_at 6 True 1950), GetPageResolved 5, TaskSettled 5 Fulfilled])))"
    by blast
  show ?thesis using a b c d e f g h i by blast
qed

text \<open>
  Claim C1, at the input where the code departs from it. The claim bounds the rendered
  pages by the budget of 5, which the code calls ``max pages to keep in memory''. With
  pages 1 to 5 rendered and page 3 current, page 6 comes into view. The memory guard
  tries one page only, page 1, the farthest from page 6; it is within 2 of the current
  page and stays. The render of page 6 goes ahead all the same, and when it completes
  six pages are rendered.
\<close>

theorem sixth_page_rendered:
  "vs_rendered (vscroll five_rendered) = [1, 2, 3, 4, 5] \<and>
   vs_currentPage (vscroll five_rendered) = 3 \<and>
   vs_rendered (vscroll (vs_run five_rendered
      [Intersect (entry_at 6 True 1950), GetPageResolved 5, TaskSettled 5 Fulfilled])) =
     [1, 2, 3, 4, 5, 6] \<and>
   maxBuffered (vscroll (vs_run five_rendered
      [Intersect (entry_at 6 True 1950), GetPageResolved 5, TaskSettled 5 Fulfilled])) = 5"
  unfolding five_rendered_eq
  by (simp add: eval_vscroll eval_renderer upt_rec numeral_eq_Suc)

end
